theory Spec2Isabelle
  imports Main "HOL-Library.Sublist" "HOL-Library.Multiset" "HOL-Library.AList"
    "HOL-Library.Char_ord" "HOL-Library.List_Lexorder" "HOL-Library.Monad_Syntax"
begin

section \<open>Data model (types/note.ts)\<close>

text \<open>
  Strings are lists of 8-bit code units, read as the characters U+0000 to U+00FF: on
  these, every string operation the code uses is given exactly below.
  A \<open>Date\<close> of a note is its time value, the milliseconds since the epoch.
\<close>

datatype Priority = High | Medium | Low

datatype Category = Bug | Task | Learning | Meeting | Feedback

text \<open>The string each enumeration value is at run time.\<close>

fun priorityId :: "Priority \<Rightarrow> string" where
  "priorityId High = ''high''"
| "priorityId Medium = ''medium''"
| "priorityId Low = ''low''"

fun categoryId :: "Category \<Rightarrow> string" where
  "categoryId Bug = ''bug''"
| "categoryId Task = ''task''"
| "categoryId Learning = ''learning''"
| "categoryId Meeting = ''meeting''"
| "categoryId Feedback = ''feedback''"

record Note =
  id' :: string
  title :: string
  content :: string
  tags :: "string list"
  priority :: Priority
  category :: Category
  isFavorite :: bool
  createdAt :: int
  updatedAt :: int

text \<open>\<open>SearchFilters\<close>: \<open>query\<close> is required, the other fields are optional.\<close>

record SearchFilters =
  query :: string
  f_priority :: "Priority option"
  f_category :: "Category option"
  f_isFavorite :: "bool option"
  f_tags :: "string list option"

datatype SortOption = Newest | Oldest | Title | ByPriority

section \<open>String operations of the platform\<close>

text \<open>\<open>String.prototype.toLowerCase\<close> on U+0000 to U+00FF: A to Z, and the
  letters U+00C0 to U+00DE but the multiplication sign U+00D7, move up by 32.\<close>

definition lowerChar :: "char \<Rightarrow> char" where
  "lowerChar c =
     (let n = (of_char c :: nat)
      in if (65 \<le> n \<and> n \<le> 90) \<or> (192 \<le> n \<and> n \<le> 222 \<and> n \<noteq> 215)
         then char_of (n + 32) else c)"

definition toLowerCase :: "string \<Rightarrow> string" where
  "toLowerCase s = map lowerChar s"

text \<open>White space and line terminators below U+0100: TAB, LF, VT, FF, CR, SP, NBSP.\<close>

definition isWhiteSpace :: "char \<Rightarrow> bool" where
  "isWhiteSpace c = ((of_char c :: nat) \<in> {9, 10, 11, 12, 13, 32, 160})"

definition trim :: "string \<Rightarrow> string" where
  "trim s = rev (dropWhile isWhiteSpace (rev (dropWhile isWhiteSpace s)))"

text \<open>\<open>s.includes(sub)\<close>: \<open>sub\<close> occurs in \<open>s\<close> as a contiguous run.\<close>

fun str_includes :: "string \<Rightarrow> string \<Rightarrow> bool" where
  "str_includes [] sub = (sub = [])"
| "str_includes (c # cs) sub = (prefix sub (c # cs) \<or> str_includes cs sub)"

text \<open>\<open>Array.prototype.join\<close> on strings.\<close>

fun join :: "string \<Rightarrow> string list \<Rightarrow> string" where
  "join sep [] = []"
| "join sep [x] = x"
| "join sep (x # y # zs) = x @ sep @ join sep (y # zs)"

section \<open>Search and filter (lib/noteUtils.ts)\<close>

definition searchableText :: "Note \<Rightarrow> string" where
  "searchableText note =
     toLowerCase (join '' ''
       ([title note, content note] @ tags note @
        [categoryId (category note), priorityId (priority note)]))"

text \<open>The callback of \<open>notes.filter\<close>, one early \<open>return false\<close> after the other.
  A string is truthy when it is not empty; the enumeration strings never are.\<close>

definition hasMatchingTag :: "Note \<Rightarrow> string list \<Rightarrow> bool" where
  "hasMatchingTag note ts =
     list_ex (\<lambda>tag. list_ex (\<lambda>noteTag. str_includes (toLowerCase noteTag) (toLowerCase tag))
                      (tags note)) ts"

definition keeps :: "SearchFilters \<Rightarrow> Note \<Rightarrow> bool" where
  "keeps filters note =
     (if query filters \<noteq> [] \<and>
         \<not> str_includes (searchableText note) (toLowerCase (query filters)) then False
      else if (case f_priority filters of None \<Rightarrow> False | Some p \<Rightarrow> priority note \<noteq> p)
        then False
      else if (case f_category filters of None \<Rightarrow> False | Some c \<Rightarrow> category note \<noteq> c)
        then False
      else if (case f_isFavorite filters of None \<Rightarrow> False | Some b \<Rightarrow> isFavorite note \<noteq> b)
        then False
      else if (case f_tags filters of None \<Rightarrow> False
               | Some ts \<Rightarrow> ts \<noteq> [] \<and> \<not> hasMatchingTag note ts)
        then False
      else True)"

definition filterNotes :: "Note list \<Rightarrow> SearchFilters \<Rightarrow> Note list" where
  "filterNotes notes filters = filter (keeps filters) notes"


section \<open>Validation (lib/noteUtils.ts)\<close>

text \<open>\<open>Partial<Note>\<close>: every field may be missing.\<close>

record PartialNote =
  p_id :: "string option"
  p_title :: "string option"
  p_content :: "string option"
  p_tags :: "string list option"
  p_priority :: "Priority option"
  p_category :: "Category option"
  p_isFavorite :: "bool option"
  p_createdAt :: "int option"
  p_updatedAt :: "int option"

text \<open>\<open>!s?.trim()\<close>: true for a missing string and for one that trims to nothing.\<close>

definition blank :: "string option \<Rightarrow> bool" where
  "blank s = (case s of None \<Rightarrow> True | Some t \<Rightarrow> trim t = [])"

definition validateNote :: "PartialNote \<Rightarrow> string list" where
  "validateNote note =
     (let errors = [];
          errors = (if blank (p_title note) then errors @ [''Title is required''] else errors);
          errors = (if blank (p_content note) then errors @ [''Content is required''] else errors);
          errors = (if p_priority note = None then errors @ [''Priority is required''] else errors);
          errors = (if p_category note = None then errors @ [''Category is required''] else errors)
      in errors)"

text \<open>The four rules in the words of the specification, and the message of each.\<close>

datatype Rule = TitleRequired | ContentRequired | PriorityRequired | CategoryRequired

fun violated :: "PartialNote \<Rightarrow> Rule \<Rightarrow> bool" where
  "violated c TitleRequired = (\<not> (\<exists>t. p_title c = Some t \<and> trim t \<noteq> []))"
| "violated c ContentRequired = (\<not> (\<exists>t. p_content c = Some t \<and> trim t \<noteq> []))"
| "violated c PriorityRequired = (p_priority c \<notin> Some ` {High, Medium, Low})"
| "violated c CategoryRequired =
     (p_category c \<notin> Some ` {Bug, Task, Learning, Meeting, Feedback})"

fun message :: "Rule \<Rightarrow> string" where
  "message TitleRequired = ''Title is required''"
| "message ContentRequired = ''Content is required''"
| "message PriorityRequired = ''Priority is required''"
| "message CategoryRequired = ''Category is required''"

section \<open>Sorting (lib/noteUtils.ts)\<close>

text \<open>\<open>Array.prototype.sort\<close> with a comparator is a stable sort: each element goes
  before the first one it does not compare greater than.\<close>

fun insertBy :: "('a \<Rightarrow> 'a \<Rightarrow> int) \<Rightarrow> 'a \<Rightarrow> 'a list \<Rightarrow> 'a list" where
  "insertBy cmp x [] = [x]"
| "insertBy cmp x (y # ys) = (if cmp x y \<le> 0 then x # y # ys else y # insertBy cmp x ys)"

definition sortBy :: "('a \<Rightarrow> 'a \<Rightarrow> int) \<Rightarrow> 'a list \<Rightarrow> 'a list" where
  "sortBy cmp xs = foldr (insertBy cmp) xs []"

fun priorityOrder :: "Priority \<Rightarrow> int" where
  "priorityOrder High = 3"
| "priorityOrder Medium = 2"
| "priorityOrder Low = 1"

text \<open>\<open>localeCompare\<close> depends on the locale of the platform and is a parameter.\<close>

fun sortNotes :: "(string \<Rightarrow> string \<Rightarrow> int) \<Rightarrow> Note list \<Rightarrow> SortOption \<Rightarrow> Note list" where
  "sortNotes localeCompare notes Newest = sortBy (\<lambda>a b. createdAt b - createdAt a) notes"
| "sortNotes localeCompare notes Oldest = sortBy (\<lambda>a b. createdAt a - createdAt b) notes"
| "sortNotes localeCompare notes Title = sortBy (\<lambda>a b. localeCompare (title a) (title b)) notes"
| "sortNotes localeCompare notes ByPriority =
     sortBy (\<lambda>a b. priorityOrder (priority b) - priorityOrder (priority a)) notes"

section \<open>Note lifecycle (lib/noteUtils.ts, components/NoteForm.tsx, components/NotesApp.tsx)\<close>

text \<open>A whole number in a template literal: its decimal digits.\<close>

fun showNat :: "nat \<Rightarrow> string" where
  "showNat n = (if n < 10 then [char_of (48 + n)] else showNat (n div 10) @ [char_of (48 + n mod 10)])"

declare showNat.simps [simp del]

definition showInt :: "int \<Rightarrow> string" where
  "showInt i = (if i < 0 then CHR ''-'' # showNat (nat (- i)) else showNat (nat i))"

text \<open>\<open>generateNoteId\<close> reads the clock (\<open>Date.now()\<close>) and draws a random suffix
  (\<open>Math.random().toString(36).substr(2, 9)\<close>): both are parameters.\<close>

definition generateNoteId :: "int \<Rightarrow> string \<Rightarrow> string" where
  "generateNoteId idNow rnd = ''note_'' @ showInt idNow @ ''_'' @ rnd"

definition orDefault :: "'a \<Rightarrow> 'a option \<Rightarrow> 'a" where
  "orDefault d v = (case v of None \<Rightarrow> d | Some x \<Rightarrow> x)"

text \<open>\<open>createNewNote(data)\<close>: the defaults, then the fields of \<open>data\<close> (\<open>...data\<close>).
  \<open>now\<close> is \<open>new Date()\<close>; \<open>idNow\<close> is the later reading inside
  \<open>generateNoteId\<close>.\<close>

definition createNewNote :: "int \<Rightarrow> int \<Rightarrow> string \<Rightarrow> PartialNote \<Rightarrow> Note" where
  "createNewNote now idNow rnd data =
     \<lparr>id' = orDefault (generateNoteId idNow rnd) (p_id data),
      title = orDefault [] (p_title data),
      content = orDefault [] (p_content data),
      tags = orDefault [] (p_tags data),
      priority = orDefault Medium (p_priority data),
      category = orDefault Task (p_category data),
      isFavorite = orDefault False (p_isFavorite data),
      createdAt = orDefault now (p_createdAt data),
      updatedAt = orDefault now (p_updatedAt data)\<rparr>"

text \<open>\<open>createNewNote()\<close>: the default argument \<open>{}\<close>.\<close>

definition noOverrides :: PartialNote where
  "noOverrides = \<lparr>p_id = None, p_title = None, p_content = None, p_tags = None,
     p_priority = None, p_category = None, p_isFavorite = None,
     p_createdAt = None, p_updatedAt = None\<rparr>"

text \<open>\<open>s.split(/[,\s]+/)\<close>: the pieces between the runs of commas and white space; a run
  at either end leaves an empty piece there.\<close>

definition isTagSeparator :: "char \<Rightarrow> bool" where
  "isTagSeparator c = (c = CHR '','' \<or> isWhiteSpace c)"

function splitOn :: "(char \<Rightarrow> bool) \<Rightarrow> string \<Rightarrow> string \<Rightarrow> string list" where
  "splitOn sep cur [] = [rev cur]"
| "splitOn sep cur (c # cs) =
     (if sep c then rev cur # splitOn sep [] (dropWhile sep cs) else splitOn sep (c # cur) cs)"
  by pat_completeness auto
termination
  by (relation "measure (\<lambda>(sep, cur, s). length s)")
     (auto simp: less_Suc_eq_le length_dropWhile_le)

definition parseTags :: "string \<Rightarrow> string list" where
  "parseTags tagsString =
     (if trim tagsString = [] then []
      else map toLowerCase
             (filter (\<lambda>tag. length tag > 0) (map trim (splitOn isTagSeparator [] tagsString))))"

record NoteFormData =
  fd_title :: string
  fd_content :: string
  fd_tags :: string
  fd_priority :: Priority
  fd_category :: Category
  fd_isFavorite :: bool

text \<open>\<open>handleSave\<close> of the form: nothing is saved when the validation finds errors;
  otherwise the note handed to \<open>onSave\<close>. \<open>note\<close> is the note being edited, if any.
  \<open>note?.id || ...\<close> falls back to a fresh identifier also for an empty \<open>id\<close>; a
  \<open>Date\<close> is always truthy, so \<open>note?.createdAt || now\<close> keeps the date of the note.\<close>

definition handleSave :: "Note option \<Rightarrow> NoteFormData \<Rightarrow> int \<Rightarrow> int \<Rightarrow> string \<Rightarrow> Note option" where
  "handleSave note formData now idNow rnd =
     (let parsedTags = parseTags (fd_tags formData);
          noteToValidate =
            \<lparr>p_id = None, p_title = Some (fd_title formData),
             p_content = Some (fd_content formData), p_tags = Some parsedTags,
             p_priority = Some (fd_priority formData),
             p_category = Some (fd_category formData),
             p_isFavorite = Some (fd_isFavorite formData),
             p_createdAt = None, p_updatedAt = None\<rparr>;
          validationErrors = validateNote noteToValidate
      in if length validationErrors > 0 then None
         else Some
           \<lparr>id' = (case note of
                     None \<Rightarrow> generateNoteId idNow rnd
                   | Some n \<Rightarrow> if id' n \<noteq> [] then id' n else generateNoteId idNow rnd),
            title = trim (fd_title formData),
            content = trim (fd_content formData),
            tags = parsedTags,
            priority = fd_priority formData,
            category = fd_category formData,
            isFavorite = fd_isFavorite formData,
            createdAt = (case note of None \<Rightarrow> now | Some n \<Rightarrow> createdAt n),
            updatedAt = now\<rparr>)"

text \<open>\<open>handleToggleFavorite\<close>: the first note with the identifier, with the flag
  flipped and \<open>updatedAt\<close> set to the clock; nothing when there is no such note.\<close>

definition toggleFavorite :: "Note \<Rightarrow> int \<Rightarrow> Note" where
  "toggleFavorite note now = note\<lparr>isFavorite := \<not> isFavorite note, updatedAt := now\<rparr>"

definition handleToggleFavorite :: "Note list \<Rightarrow> string \<Rightarrow> int \<Rightarrow> Note option" where
  "handleToggleFavorite notes i now =
     (case find (\<lambda>n. id' n = i) notes of
        None \<Rightarrow> None
      | Some note \<Rightarrow> Some (toggleFavorite note now))"

text \<open>
  The notes the lifecycle operations produce, each with a reading of the clock that is
  not before its production. The clock does not go back: an operation reads
  \<open>now\<close> no earlier than the reading of the note it works on.
\<close>

inductive produced :: "int \<Rightarrow> Note \<Rightarrow> bool" where
  created: "now \<le> idNow \<Longrightarrow> produced idNow (createNewNote now idNow rnd noOverrides)"
| seeded: "now \<le> idNow \<Longrightarrow>
     produced idNow ((createNewNote now idNow rnd noOverrides)
       \<lparr>title := t, content := c, tags := ts, priority := p, category := k, isFavorite := f\<rparr>)"
| saved: "now \<le> idNow \<Longrightarrow> handleSave None fd now idNow rnd = Some n \<Longrightarrow> produced idNow n"
| edited: "produced t n \<Longrightarrow> t \<le> now \<Longrightarrow> now \<le> idNow \<Longrightarrow>
     handleSave (Some n) fd now idNow rnd = Some n' \<Longrightarrow> produced idNow n'"
| toggled: "produced t n \<Longrightarrow> t \<le> now \<Longrightarrow> produced now (toggleFavorite n now)"

section \<open>Dates of the platform (ECMAScript Date)\<close>

definition msPerDay :: int where
  "msPerDay = 86400000"

text \<open>A time value is valid within 100 000 000 days of the epoch.\<close>

definition validTime :: "int \<Rightarrow> bool" where
  "validTime t = (- 8640000000000000 \<le> t \<and> t \<le> 8640000000000000)"

definition isLeapYear :: "int \<Rightarrow> bool" where
  "isLeapYear y = ((y mod 4 = 0 \<and> y mod 100 \<noteq> 0) \<or> y mod 400 = 0)"

definition daysInYear :: "int \<Rightarrow> int" where
  "daysInYear y = (if isLeapYear y then 366 else 365)"

definition dayFromYear :: "int \<Rightarrow> int" where
  "dayFromYear y =
     365 * (y - 1970) + (y - 1969) div 4 - (y - 1901) div 100 + (y - 1601) div 400"

lemma div_step:
  fixes a n :: int
  assumes "0 < n"
  shows "(a + 1) div n = a div n + (if (a + 1) mod n = 0 then 1 else 0)"
proof -
  define q r where "q = a div n" and "r = a mod n"
  have a: "a = n * q + r" and r: "0 \<le> r" "r < n"
    using assms by (simp_all add: q_def r_def)
  show ?thesis
  proof (cases "r + 1 < n")
    case True
    have "a + 1 = n * q + (r + 1)" using a by simp
    then have "(a + 1) div n = q" "(a + 1) mod n = r + 1"
      using True r by (auto intro: int_div_pos_eq int_mod_pos_eq)
    then show ?thesis using r by (simp add: q_def)
  next
    case False
    then have "r + 1 = n" using r by simp
    then have "a + 1 = n * (q + 1) + 0" using a by (simp add: algebra_simps)
    then have "(a + 1) div n = q + 1" "(a + 1) mod n = 0"
      using assms by (auto intro: int_div_pos_eq int_mod_pos_eq)
    then show ?thesis by (simp add: q_def)
  qed
qed

lemma mod_sub_mult: "(y - k * n) mod n = y mod n" for y :: int
  by algebra

lemma dayFromYear_step: "dayFromYear (y + 1) = dayFromYear y + daysInYear y"
proof -
  have e4: "(y + 1 - 1969) div 4 = (y - 1969) div 4 + (if y mod 4 = 0 then 1 else 0)"
    using div_step [of 4 "y - 1969"] mod_sub_mult [of y 492 4] by (simp add: algebra_simps)
  have e100: "(y + 1 - 1901) div 100 = (y - 1901) div 100 + (if y mod 100 = 0 then 1 else 0)"
    using div_step [of 100 "y - 1901"] mod_sub_mult [of y 19 100] by (simp add: algebra_simps)
  have e400: "(y + 1 - 1601) div 400 = (y - 1601) div 400 + (if y mod 400 = 0 then 1 else 0)"
    using div_step [of 400 "y - 1601"] mod_sub_mult [of y 4 400] by (simp add: algebra_simps)
  have c1: "y mod 100 = 0" if "y mod 400 = 0"
  proof -
    from that have "400 dvd y" by (simp add: mod_eq_0_iff_dvd)
    moreover have "(100::int) dvd 400" by simp
    ultimately have "100 dvd y" using dvd_trans by blast
    then show ?thesis by (simp add: mod_eq_0_iff_dvd)
  qed
  have c2: "y mod 4 = 0" if "y mod 100 = 0"
  proof -
    from that have "100 dvd y" by (simp add: mod_eq_0_iff_dvd)
    moreover have "(4::int) dvd 100" by simp
    ultimately have "4 dvd y" using dvd_trans by blast
    then show ?thesis by (simp add: mod_eq_0_iff_dvd)
  qed
  show ?thesis
    unfolding dayFromYear_def daysInYear_def isLeapYear_def e4 e100 e400
    using c1 c2 by auto
qed

lemma dayFromYear_less: "dayFromYear y < dayFromYear (y + 1)"
  by (simp add: dayFromYear_step daysInYear_def)

lemma dayFromYear_pred: "dayFromYear (y - 1) < dayFromYear y"
  using dayFromYear_less [of "y - 1"] by simp

text \<open>The year of a day: the last year that starts on or before it, found from an
  estimate by the mean length of a year.\<close>

function yearDown :: "int \<Rightarrow> int \<Rightarrow> int" where
  "yearDown day y = (if day < dayFromYear y then yearDown day (y - 1) else y)"
  by pat_completeness auto
termination
  by (relation "measure (\<lambda>(day, y). nat (dayFromYear y - day))")
     (use dayFromYear_pred in \<open>auto simp: nat_less_iff\<close>)

function yearUp :: "int \<Rightarrow> int \<Rightarrow> int" where
  "yearUp day y = (if dayFromYear (y + 1) \<le> day then yearUp day (y + 1) else y)"
  by pat_completeness auto
termination
proof (relation "measure (\<lambda>(day, y). nat (day + 1 - dayFromYear (y + 1)))")
  show "wf (measure (\<lambda>(day, y). nat (day + 1 - dayFromYear (y + 1))))"
    by simp
next
  fix day y :: int
  assume "dayFromYear (y + 1) \<le> day"
  moreover have "dayFromYear (y + 1) < dayFromYear (y + 1 + 1)"
    by (rule dayFromYear_less)
  ultimately show "((day, y + 1), (day, y)) \<in> measure (\<lambda>(day, y). nat (day + 1 - dayFromYear (y + 1)))"
    by simp
qed

declare yearDown.simps [simp del] yearUp.simps [simp del]

definition yearFromDay :: "int \<Rightarrow> int" where
  "yearFromDay day = yearUp day (yearDown day (1970 + (day * 400) div 146097))"

definition monthLengths :: "int \<Rightarrow> int list" where
  "monthLengths y = [31, if isLeapYear y then 29 else 28, 31, 30, 31, 30, 31, 31, 30, 31, 30, 31]"

text \<open>The month (from 0) and the day in it (from 0) of a day in the year (from 0).\<close>

fun monthFromDay :: "int list \<Rightarrow> int \<Rightarrow> nat \<times> int" where
  "monthFromDay [] d = (0, d)"
| "monthFromDay (l # ls) d =
     (if d < l then (0, d) else (case monthFromDay ls (d - l) of (m, r) \<Rightarrow> (Suc m, r)))"

text \<open>Decimal digits, padded with zeros to a width.\<close>

definition digitChar :: "nat \<Rightarrow> char" where
  "digitChar d = char_of (48 + d)"

fun pad :: "nat \<Rightarrow> nat \<Rightarrow> string" where
  "pad 0 n = []"
| "pad (Suc k) n = pad k (n div 10) @ [digitChar (n mod 10)]"

definition showYear :: "int \<Rightarrow> string" where
  "showYear y =
     (if 0 \<le> y \<and> y \<le> 9999 then pad 4 (nat y)
      else (if y < 0 then CHR ''-'' else CHR ''+'') # pad 6 (nat \<bar>y\<bar>))"

text \<open>\<open>Date.prototype.toISOString\<close> of a valid time value.\<close>

definition toISOString :: "int \<Rightarrow> string" where
  "toISOString t =
     (let day = t div msPerDay;
          tm = t mod msPerDay;
          y = yearFromDay day;
          (m, r) = monthFromDay (monthLengths y) (day - dayFromYear y);
          secs = tm div 1000;
          mins = secs div 60
      in showYear y @ ''-'' @ pad 2 (Suc m) @ ''-'' @ pad 2 (Suc (nat r)) @ ''T'' @
         pad 2 (nat (mins div 60)) @ '':'' @ pad 2 (nat (mins mod 60)) @ '':'' @
         pad 2 (nat (secs mod 60)) @ ''.'' @ pad 3 (nat (tm mod 1000)) @ ''Z'')"

text \<open>Reading a date-time string. Only the form \<open>toISOString\<close> writes is read here
  (\<open>YYYY-MM-DDTHH:mm:ss.sssZ\<close>, the year with a sign and six digits outside 0 to 9999,
  every field in its range): \<open>Date.parse\<close> may read any other string as the
  implementation likes.\<close>

definition digitVal :: "char \<Rightarrow> nat option" where
  "digitVal c = (let n = (of_char c :: nat) in if 48 \<le> n \<and> n \<le> 57 then Some (n - 48) else None)"

fun readNat :: "nat \<Rightarrow> nat \<Rightarrow> string \<Rightarrow> (nat \<times> string) option" where
  "readNat 0 acc s = Some (acc, s)"
| "readNat (Suc k) acc [] = None"
| "readNat (Suc k) acc (c # cs) =
     (case digitVal c of None \<Rightarrow> None | Some d \<Rightarrow> readNat k (10 * acc + d) cs)"

definition expectChar :: "char \<Rightarrow> string \<Rightarrow> string option" where
  "expectChar c s = (case s of [] \<Rightarrow> None | x # xs \<Rightarrow> if x = c then Some xs else None)"

definition readYear :: "string \<Rightarrow> (int \<times> string) option" where
  "readYear s =
     (case s of
        [] \<Rightarrow> None
      | c # cs \<Rightarrow>
          if c = CHR ''+'' then
            (case readNat 6 0 cs of None \<Rightarrow> None
             | Some (y, r) \<Rightarrow> if 9999 < y then Some (int y, r) else None)
          else if c = CHR ''-'' then
            (case readNat 6 0 cs of None \<Rightarrow> None
             | Some (y, r) \<Rightarrow> if 0 < y then Some (- int y, r) else None)
          else
            (case readNat 4 0 s of None \<Rightarrow> None | Some (y, r) \<Rightarrow> Some (int y, r)))"

definition parseISO :: "string \<Rightarrow> int option" where
  "parseISO s = do {
     (y, s) \<leftarrow> readYear s;
     s \<leftarrow> expectChar CHR ''-'' s;
     (mo, s) \<leftarrow> readNat 2 0 s;
     s \<leftarrow> expectChar CHR ''-'' s;
     (d, s) \<leftarrow> readNat 2 0 s;
     s \<leftarrow> expectChar CHR ''T'' s;
     (h, s) \<leftarrow> readNat 2 0 s;
     s \<leftarrow> expectChar CHR '':'' s;
     (mi, s) \<leftarrow> readNat 2 0 s;
     s \<leftarrow> expectChar CHR '':'' s;
     (sec, s) \<leftarrow> readNat 2 0 s;
     s \<leftarrow> expectChar CHR ''.'' s;
     (ms, s) \<leftarrow> readNat 3 0 s;
     s \<leftarrow> expectChar CHR ''Z'' s;
     if s = [] \<and> 1 \<le> mo \<and> mo \<le> 12 \<and> 1 \<le> d \<and> int d \<le> monthLengths y ! (mo - 1) \<and>
        h \<le> 23 \<and> mi \<le> 59 \<and> sec \<le> 59
     then (let t = (dayFromYear y + sum_list (take (mo - 1) (monthLengths y)) + int d - 1) * msPerDay
                   + ((int h * 60 + int mi) * 60 + int sec) * 1000 + int ms
           in if validTime t then Some t else None)
     else None
   }"

subsection \<open>Local time\<close>

text \<open>The time zone of the platform is its function \<open>LocalTZA(t, isUTC)\<close>: the offset of
  local time from UTC in milliseconds, at the instant \<open>t\<close> when \<open>isUTC\<close> is true and at
  the local time \<open>t\<close> when it is false. Daylight saving makes it depend on \<open>t\<close>.\<close>

type_synonym Zone = "int \<Rightarrow> bool \<Rightarrow> int"

definition LocalTime :: "Zone \<Rightarrow> int \<Rightarrow> int" where
  "LocalTime LocalTZA t = t + LocalTZA t True"

definition UTC :: "Zone \<Rightarrow> int \<Rightarrow> int" where
  "UTC LocalTZA t = t - LocalTZA t False"

definition Day :: "int \<Rightarrow> int" where
  "Day t = t div msPerDay"

definition TimeWithinDay :: "int \<Rightarrow> int" where
  "TimeWithinDay t = t mod msPerDay"

definition YearFromTime :: "int \<Rightarrow> int" where
  "YearFromTime t = yearFromDay (Day t)"

text \<open>The month from 0, the day of the month from 1.\<close>

definition MonthFromTime :: "int \<Rightarrow> int" where
  "MonthFromTime t =
     (let y = YearFromTime t in int (fst (monthFromDay (monthLengths y) (Day t - dayFromYear y))))"

definition DateFromTime :: "int \<Rightarrow> int" where
  "DateFromTime t =
     (let y = YearFromTime t in snd (monthFromDay (monthLengths y) (Day t - dayFromYear y)) + 1)"

text \<open>\<open>MakeDay\<close>: the day number of the first of the month, moved by the date, which
  may lie outside the month.\<close>

definition MakeDay :: "int \<Rightarrow> int \<Rightarrow> int \<Rightarrow> int" where
  "MakeDay year month date =
     (let ym = year + month div 12;
          mn = nat (month mod 12)
      in dayFromYear ym + sum_list (take mn (monthLengths ym)) + date - 1)"

definition MakeDate :: "int \<Rightarrow> int \<Rightarrow> int" where
  "MakeDate day time = day * msPerDay + time"

text \<open>A \<open>Date\<close> object holds a time value or is invalid (\<open>None\<close>).\<close>

definition TimeClip :: "int \<Rightarrow> int option" where
  "TimeClip time = (if validTime time then Some time else None)"

text \<open>\<open>Date.prototype.getDate\<close> and \<open>Date.prototype.setDate\<close> of a valid date: both work
  on the fields of the local time.\<close>

definition getDate :: "Zone \<Rightarrow> int \<Rightarrow> int" where
  "getDate LocalTZA t = DateFromTime (LocalTime LocalTZA t)"

definition setDate :: "Zone \<Rightarrow> int \<Rightarrow> int \<Rightarrow> int option" where
  "setDate LocalTZA t dt =
     (let t = LocalTime LocalTZA t;
          newDate = MakeDate (MakeDay (YearFromTime t) (MonthFromTime t) dt) (TimeWithinDay t)
      in TimeClip (UTC LocalTZA newDate))"

text \<open>\<open>a > d\<close> of a valid date \<open>a\<close> and a date \<open>d\<close>: false when \<open>d\<close> is invalid.\<close>

definition laterThan :: "int \<Rightarrow> int option \<Rightarrow> bool" where
  "laterThan t d = (case d of None \<Rightarrow> False | Some u \<Rightarrow> u < t)"

section \<open>Statistics (lib/noteUtils.ts)\<close>

text \<open>\<open>getUniqueTags\<close>: the tags of all notes, once each, sorted by code units (the
  default order of \<open>Array.prototype.sort\<close>).\<close>

definition getUniqueTags :: "Note list \<Rightarrow> string list" where
  "getUniqueTags notes = sort (remdups (concat (map tags notes)))"

text \<open>An object that counts is an association list in the order its keys were first
  set. \<open>acc[k] = (acc[k] || 0) + 1\<close> reads a missing key, and a zero, as zero.\<close>

definition orZero :: "nat option \<Rightarrow> nat" where
  "orZero v = (case v of None \<Rightarrow> 0 | Some c \<Rightarrow> if c = 0 then 0 else c)"

definition countInto :: "('k \<times> nat) list \<Rightarrow> 'k \<Rightarrow> ('k \<times> nat) list" where
  "countInto acc k = AList.update k (orZero (map_of acc k) + 1) acc"

record Stats =
  total :: nat
  favorites :: nat
  priorities :: "(Priority \<times> nat) list"
  categories :: "(Category \<times> nat) list"
  recentNotes :: nat
  tagCount :: nat

text \<open>\<open>const weekAgo = new Date(); weekAgo.setDate(weekAgo.getDate() - 7)\<close>, where
  \<open>now\<close> is what the clock reads.\<close>

definition weekAgo :: "Zone \<Rightarrow> int \<Rightarrow> int option" where
  "weekAgo LocalTZA now = setDate LocalTZA now (getDate LocalTZA now - 7)"

text \<open>\<open>getNoteStats\<close> reads the clock in the callback of the filter for the recent
  notes, once for every note: \<open>clock k\<close> is what it reads at the note of index \<open>k\<close>.\<close>

definition getNoteStats :: "Zone \<Rightarrow> (nat \<Rightarrow> int) \<Rightarrow> Note list \<Rightarrow> Stats" where
  "getNoteStats LocalTZA clock notes =
     \<lparr>total = length notes,
      favorites = length (filter isFavorite notes),
      priorities = foldl (\<lambda>acc note. countInto acc (priority note)) [] notes,
      categories = foldl (\<lambda>acc note. countInto acc (category note)) [] notes,
      recentNotes = length (filter
        (\<lambda>(k, note). laterThan (createdAt note) (weekAgo LocalTZA (clock k)))
        (enumerate 0 notes)),
      tagCount = length (getUniqueTags notes)\<rparr>"

section \<open>Values and JSON of the platform\<close>

text \<open>What a run does: it returns, it throws, or it leaves what is modelled here
  (text beyond U+00FF, numbers that are not whole or not exact, date strings and
  conversions the implementation is free in).\<close>

datatype exn = TypeError | SyntaxError | QuotaExceededError | Error string

datatype 'a outcome = Returns 'a | Throws exn | Beyond

definition andThen :: "'a outcome \<Rightarrow> ('a \<Rightarrow> 'b outcome) \<Rightarrow> 'b outcome" where
  "andThen m f = (case m of Returns x \<Rightarrow> f x | Throws e \<Rightarrow> Throws e | Beyond \<Rightarrow> Beyond)"

lemma andThen_cong [fundef_cong]:
  "m = m' \<Longrightarrow> (\<And>x. m' = Returns x \<Longrightarrow> f x = f' x) \<Longrightarrow> andThen m f = andThen m' f'"
  by (cases m') (simp_all add: andThen_def)

text \<open>\<open>try { m } catch (error) { h }\<close>.\<close>

definition catch :: "'a outcome \<Rightarrow> (exn \<Rightarrow> 'a outcome) \<Rightarrow> 'a outcome" where
  "catch m h = (case m of Returns x \<Rightarrow> Returns x | Throws e \<Rightarrow> h e | Beyond \<Rightarrow> Beyond)"

text \<open>The values at run time: what JSON text denotes, and \<open>Date\<close> objects (with their
  time value, or none for an invalid date). An object is the list of its properties in
  their order.\<close>

datatype jsval =
    JNull
  | JBool bool
  | JNum int
  | JStr string
  | JArr "jsval list"
  | JObj "(string \<times> jsval) list"
  | JDate "int option"

definition dquote :: char where
  "dquote = CHR 0x22"

definition backslash :: char where
  "backslash = CHR 0x5C"

subsection \<open>JSON.stringify\<close>

definition hexDigit :: "nat \<Rightarrow> char" where
  "hexDigit d = (if d < 10 then char_of (48 + d) else char_of (87 + d))"

definition quoteChar :: "char \<Rightarrow> string" where
  "quoteChar c =
     (let n = (of_char c :: nat)
      in if c = dquote then [backslash, dquote]
         else if c = backslash then [backslash, backslash]
         else if n = 8 then [backslash, CHR ''b'']
         else if n = 9 then [backslash, CHR ''t'']
         else if n = 10 then [backslash, CHR ''n'']
         else if n = 12 then [backslash, CHR ''f'']
         else if n = 13 then [backslash, CHR ''r'']
         else if n < 32 then [backslash, CHR ''u'', CHR ''0'', CHR ''0'',
                              hexDigit (n div 16), hexDigit (n mod 16)]
         else [c])"

definition quoteJSONString :: "string \<Rightarrow> string" where
  "quoteJSONString s = dquote # concat (map quoteChar s) @ [dquote]"

text \<open>A \<open>Date\<close> is written through \<open>toJSON\<close>: its ISO string, or \<open>null\<close> when invalid.\<close>

fun stringify :: "jsval \<Rightarrow> string" where
  "stringify JNull = ''null''"
| "stringify (JBool b) = (if b then ''true'' else ''false'')"
| "stringify (JNum n) = showInt n"
| "stringify (JStr s) = quoteJSONString s"
| "stringify (JArr xs) = ''['' @ join '','' (map stringify xs) @ '']''"
| "stringify (JObj kvs) =
     ''{'' @ join '','' (map (\<lambda>(k, v). quoteJSONString k @ '':'' @ stringify v) kvs) @ ''}''"
| "stringify (JDate None) = ''null''"
| "stringify (JDate (Some t)) = quoteJSONString (toISOString t)"

subsection \<open>JSON.parse\<close>

datatype token =
    TLBrace | TRBrace | TLBracket | TRBracket | TColon | TComma
  | TString string | TNumber int | TTrue | TFalse | TNull

definition isJsonWhiteSpace :: "char \<Rightarrow> bool" where
  "isJsonWhiteSpace c = ((of_char c :: nat) \<in> {9, 10, 13, 32})"

definition isDigit :: "char \<Rightarrow> bool" where
  "isDigit c = (digitVal c \<noteq> None)"

definition hexVal :: "char \<Rightarrow> nat option" where
  "hexVal c =
     (let n = (of_char c :: nat)
      in if 48 \<le> n \<and> n \<le> 57 then Some (n - 48)
         else if 97 \<le> n \<and> n \<le> 102 then Some (n - 87)
         else if 65 \<le> n \<and> n \<le> 70 then Some (n - 55)
         else None)"

definition readHex4 :: "string \<Rightarrow> nat option" where
  "readHex4 s =
     (case map hexVal (take 4 s) of
        [Some a, Some b, Some c, Some d] \<Rightarrow> Some (((a * 16 + b) * 16 + c) * 16 + d)
      | _ \<Rightarrow> None)"

definition unescape :: "char \<Rightarrow> char option" where
  "unescape e =
     (if e = dquote then Some dquote
      else if e = backslash then Some backslash
      else if e = CHR ''/'' then Some CHR ''/''
      else if e = CHR ''b'' then Some (CHR 0x08)
      else if e = CHR ''f'' then Some (CHR 0x0C)
      else if e = CHR ''n'' then Some (CHR 0x0A)
      else if e = CHR ''r'' then Some (CHR 0x0D)
      else if e = CHR ''t'' then Some (CHR 0x09)
      else None)"

definition consChar :: "char \<Rightarrow> (string \<times> string) outcome \<Rightarrow> (string \<times> string) outcome" where
  "consChar c r = andThen r (\<lambda>(s, rest). Returns (c # s, rest))"

text \<open>A string, from behind its opening quote: the string and the text behind its
  closing quote.\<close>

fun scanString :: "string \<Rightarrow> (string \<times> string) outcome" where
  "scanString [] = Throws SyntaxError"
| "scanString (c # cs) =
     (if c = dquote then Returns ([], cs)
      else if c = backslash then
        (case cs of
           [] \<Rightarrow> Throws SyntaxError
         | e # cs' \<Rightarrow>
             if e = CHR ''u'' then
               (case readHex4 cs' of
                  None \<Rightarrow> Throws SyntaxError
                | Some n \<Rightarrow> if n < 256 then consChar (char_of n) (scanString (drop 4 cs'))
                            else Beyond)
             else
               (case unescape e of
                  None \<Rightarrow> Throws SyntaxError
                | Some ch \<Rightarrow> consChar ch (scanString cs')))
      else if (of_char c :: nat) < 32 then Throws SyntaxError
      else consChar c (scanString cs))"

text \<open>A number, from its first character: only a whole number of at most \<open>2 ^ 53\<close> in
  size, and not \<open>-0\<close>, is modelled.\<close>

definition digitsValue :: "string \<Rightarrow> int" where
  "digitsValue ds =
     foldl (\<lambda>a c. 10 * a + (case digitVal c of None \<Rightarrow> 0 | Some d \<Rightarrow> int d)) 0 ds"

definition scanDigits :: "bool \<Rightarrow> string \<Rightarrow> (int \<times> string) outcome" where
  "scanDigits neg s =
     (case s of
        [] \<Rightarrow> Throws SyntaxError
      | c # cs \<Rightarrow>
          if \<not> isDigit c then Throws SyntaxError
          else
            (let ds = (if c = CHR ''0'' then [] else takeWhile isDigit cs);
                 rest = drop (length ds) cs;
                 v = digitsValue (c # ds)
             in if take 1 rest \<in> {''.'', ''e'', ''E''} then Beyond
                else if neg \<and> v = 0 then Beyond
                else if 9007199254740992 < v then Beyond
                else Returns (if neg then - v else v, rest)))"

definition scanNumber :: "string \<Rightarrow> (int \<times> string) outcome" where
  "scanNumber s =
     (case s of
        [] \<Rightarrow> Throws SyntaxError
      | c # cs \<Rightarrow> if c = CHR ''-'' then scanDigits True cs else scanDigits False s)"

definition consTok :: "token \<Rightarrow> token list outcome \<Rightarrow> token list outcome" where
  "consTok t r = andThen r (\<lambda>ts. Returns (t # ts))"

lemma consChar_length:
  "consChar c r = Returns (s, rest) \<Longrightarrow> \<exists>s'. r = Returns (s', rest)"
  by (cases r) (auto simp: consChar_def andThen_def)

lemma scanString_length: "scanString cs = Returns (s, rest) \<Longrightarrow> length rest < length cs"
proof (induction cs arbitrary: s rule: scanString.induct)
  case 1
  then show ?case by simp
next
  case (2 c cs)
  show ?case
  proof (cases "c = dquote")
    case True
    with "2.prems" show ?thesis by simp
  next
    case nq: False
    show ?thesis
    proof (cases "c = backslash")
      case True
      with nq "2.prems" obtain e cs' where cs: "cs = e # cs'"
        by (cases cs) auto
      show ?thesis
      proof (cases "e = CHR ''u''")
        case u: True
        with True nq cs "2.prems" obtain n where n: "readHex4 cs' = Some n" "n < 256"
          and r: "consChar (char_of n) (scanString (drop 4 cs')) = Returns (s, rest)"
          by (auto split: option.splits if_splits)
        from consChar_length [OF r] obtain s' where "scanString (drop 4 cs') = Returns (s', rest)"
          by blast
        from "2.IH"(1) [OF nq True cs u n(1) n(2) this] show ?thesis
          using cs by simp
      next
        case nu: False
        with True nq cs "2.prems" obtain ch where ch: "unescape e = Some ch"
          and r: "consChar ch (scanString cs') = Returns (s, rest)"
          by (auto split: option.splits if_splits)
        from consChar_length [OF r] obtain s' where "scanString cs' = Returns (s', rest)"
          by blast
        from "2.IH"(2) [OF nq True cs nu ch this] show ?thesis
          using cs by simp
      qed
    next
      case False
      with nq "2.prems" have c: "\<not> (of_char c :: nat) < 32"
        and r: "consChar c (scanString cs) = Returns (s, rest)"
        by (auto split: if_splits)
      from consChar_length [OF r] obtain s' where "scanString cs = Returns (s', rest)"
        by blast
      from "2.IH"(3) [OF nq False c this] show ?thesis by simp
    qed
  qed
qed

lemma scanDigits_length: "scanDigits neg s = Returns (n, rest) \<Longrightarrow> length rest < length s"
  by (auto simp: scanDigits_def Let_def split: list.splits if_splits)

lemma scanNumber_length: "scanNumber s = Returns (n, rest) \<Longrightarrow> length rest < length s"
  by (auto simp: scanNumber_def split: list.splits if_splits dest: scanDigits_length)

definition punctuation :: "char \<Rightarrow> token option" where
  "punctuation c =
     (if c = CHR ''{'' then Some TLBrace
      else if c = CHR ''}'' then Some TRBrace
      else if c = CHR ''['' then Some TLBracket
      else if c = CHR '']'' then Some TRBracket
      else if c = CHR '':'' then Some TColon
      else if c = CHR '','' then Some TComma
      else None)"

definition keyword :: "string \<Rightarrow> (token \<times> string) option" where
  "keyword s =
     (if prefix ''true'' s then Some (TTrue, drop 4 s)
      else if prefix ''false'' s then Some (TFalse, drop 5 s)
      else if prefix ''null'' s then Some (TNull, drop 4 s)
      else None)"

lemma keyword_length: "keyword s = Some (t, rest) \<Longrightarrow> length rest < length s"
  by (auto simp: keyword_def prefix_def split: if_splits)

function tokenize :: "string \<Rightarrow> token list outcome" where
  "tokenize [] = Returns []"
| "tokenize (c # cs) =
     (if isJsonWhiteSpace c then tokenize cs
      else case punctuation c of
        Some t \<Rightarrow> consTok t (tokenize cs)
      | None \<Rightarrow>
          if c = dquote then
            andThen (scanString cs) (\<lambda>(s, rest). consTok (TString s) (tokenize rest))
          else if c = CHR ''-'' \<or> isDigit c then
            andThen (scanNumber (c # cs)) (\<lambda>(n, rest). consTok (TNumber n) (tokenize rest))
          else
            (case keyword (c # cs) of
               Some (t, rest) \<Rightarrow> consTok t (tokenize rest)
             | None \<Rightarrow> Throws SyntaxError))"
  by pat_completeness auto
termination
  by (relation "measure length")
     (auto dest: keyword_length scanString_length scanNumber_length)

text \<open>A key that is written as a whole number: such keys are ordered before the
  others in an object, which is not modelled.\<close>

definition isIndexKey :: "string \<Rightarrow> bool" where
  "isIndexKey k = (k \<noteq> [] \<and> list_all isDigit k)"

text \<open>The value at the head of the tokens, and the tokens behind it. The lengths are
  compared only for the recursion to be well-founded: a value never leaves more tokens
  than it was given.\<close>

function parseValue :: "token list \<Rightarrow> (jsval \<times> token list) outcome"
  and parseElements :: "token list \<Rightarrow> jsval list \<Rightarrow> (jsval \<times> token list) outcome"
  and parseMembers :: "token list \<Rightarrow> (string \<times> jsval) list \<Rightarrow> (jsval \<times> token list) outcome"
where
  "parseValue ts =
     (case ts of
        [] \<Rightarrow> Throws SyntaxError
      | t # r \<Rightarrow>
          (case t of
             TNull \<Rightarrow> Returns (JNull, r)
           | TTrue \<Rightarrow> Returns (JBool True, r)
           | TFalse \<Rightarrow> Returns (JBool False, r)
           | TString s \<Rightarrow> Returns (JStr s, r)
           | TNumber n \<Rightarrow> Returns (JNum n, r)
           | TLBracket \<Rightarrow>
               (case r of TRBracket # r' \<Rightarrow> Returns (JArr [], r') | _ \<Rightarrow> parseElements r [])
           | TLBrace \<Rightarrow>
               (case r of TRBrace # r' \<Rightarrow> Returns (JObj [], r') | _ \<Rightarrow> parseMembers r [])
           | _ \<Rightarrow> Throws SyntaxError))"
| "parseElements ts acc =
     (case parseValue ts of
        Returns (v, r) \<Rightarrow>
          if length r < length ts then
            (case r of
               TComma # r' \<Rightarrow> parseElements r' (acc @ [v])
             | TRBracket # r' \<Rightarrow> Returns (JArr (acc @ [v]), r')
             | _ \<Rightarrow> Throws SyntaxError)
          else Beyond
      | Throws e \<Rightarrow> Throws e
      | Beyond \<Rightarrow> Beyond)"
| "parseMembers ts acc =
     (case ts of
        TString k # TColon # r \<Rightarrow>
          (case parseValue r of
             Returns (v, r2) \<Rightarrow>
               if length r2 < length r then
                 (if isIndexKey k then Beyond
                  else case r2 of
                         TComma # r3 \<Rightarrow> parseMembers r3 (AList.update k v acc)
                       | TRBrace # r3 \<Rightarrow> Returns (JObj (AList.update k v acc), r3)
                       | _ \<Rightarrow> Throws SyntaxError)
               else Beyond
           | Throws e \<Rightarrow> Throws e
           | Beyond \<Rightarrow> Beyond)
      | _ \<Rightarrow> Throws SyntaxError)"
  by pat_completeness auto
termination
  by (relation "measure (\<lambda>x. case x of
        Inl ts \<Rightarrow> 2 * length ts
      | Inr (Inl (ts, acc)) \<Rightarrow> 2 * length ts + 1
      | Inr (Inr (ts, acc)) \<Rightarrow> 2 * length ts + 1)")
     auto

declare parseValue.simps [simp del] parseElements.simps [simp del] parseMembers.simps [simp del]

definition JSON_parse :: "string \<Rightarrow> jsval outcome" where
  "JSON_parse text =
     andThen (tokenize text) (\<lambda>ts.
       andThen (parseValue ts) (\<lambda>(v, r).
         if r = [] then Returns v else Throws SyntaxError))"

section \<open>Local storage (lib/noteStorage.ts)\<close>

text \<open>\<open>localStorage\<close>: the items in the order they were first set, and a quota on the
  total length of keys and values, past which \<open>setItem\<close> throws.\<close>

record Storage =
  items :: "(string \<times> string) list"
  quota :: nat

definition getItem :: "Storage \<Rightarrow> string \<Rightarrow> string option" where
  "getItem st key = map_of (items st) key"

definition usage :: "(string \<times> string) list \<Rightarrow> nat" where
  "usage its = sum_list (map (\<lambda>(k, v). length k + length v) its)"

definition setItem :: "string \<Rightarrow> string \<Rightarrow> Storage \<Rightarrow> Storage outcome" where
  "setItem key v st =
     (let its = AList.update key v (items st)
      in if quota st < usage its then Throws QuotaExceededError
         else Returns (st\<lparr>items := its\<rparr>))"

definition NOTES_STORAGE_KEY :: string where
  "NOTES_STORAGE_KEY = ''notes-app-data''"

text \<open>A note as the object it is at run time, its properties in the order every
  constructor of the code writes them.\<close>

definition ofNote :: "Note \<Rightarrow> jsval" where
  "ofNote n = JObj
     [(''id'', JStr (id' n)),
      (''title'', JStr (title n)),
      (''content'', JStr (content n)),
      (''tags'', JArr (map JStr (tags n))),
      (''priority'', JStr (priorityId (priority n))),
      (''category'', JStr (categoryId (category n))),
      (''isFavorite'', JBool (isFavorite n)),
      (''createdAt'', JDate (Some (createdAt n))),
      (''updatedAt'', JDate (Some (updatedAt n)))]"

text \<open>\<open>new Date(v)\<close> for a property value, or for \<open>undefined\<close> when the property is
  missing. An array or an object is converted through its own methods, and a string
  that is not an ISO string of the form above is read as the implementation likes.\<close>

definition newDate :: "jsval option \<Rightarrow> int option outcome" where
  "newDate v =
     (case v of
        None \<Rightarrow> Returns None
      | Some JNull \<Rightarrow> Returns (Some 0)
      | Some (JBool b) \<Rightarrow> Returns (Some (if b then 1 else 0))
      | Some (JNum n) \<Rightarrow> Returns (if validTime n then Some n else None)
      | Some (JStr s) \<Rightarrow> (case parseISO s of None \<Rightarrow> Beyond | Some t \<Rightarrow> Returns (Some t))
      | Some (JArr xs) \<Rightarrow> Beyond
      | Some (JObj kvs) \<Rightarrow> Beyond
      | Some (JDate d) \<Rightarrow> Returns d)"

text \<open>\<open>{...v}\<close>: the own enumerable properties of a value.\<close>

definition spread :: "jsval \<Rightarrow> (string \<times> jsval) list" where
  "spread v =
     (case v of
        JObj kvs \<Rightarrow> kvs
      | JArr xs \<Rightarrow> zip (map showNat [0..<length xs]) xs
      | JStr s \<Rightarrow> zip (map showNat [0..<length s]) (map (\<lambda>c. JStr [c]) s)
      | _ \<Rightarrow> [])"

text \<open>\<open>v.name\<close> for a name that no prototype defines (\<open>id\<close>, \<open>createdAt\<close>,
  \<open>updatedAt\<close>): reading a property of \<open>null\<close> throws.\<close>

definition getProp :: "jsval \<Rightarrow> string \<Rightarrow> jsval option outcome" where
  "getProp v name =
     (case v of
        JNull \<Rightarrow> Throws TypeError
      | JObj kvs \<Rightarrow> Returns (map_of kvs name)
      | _ \<Rightarrow> Returns None)"

text \<open>The callback of \<open>notes.map\<close> in \<open>getAllNotes\<close>.\<close>

definition revive :: "jsval \<Rightarrow> jsval outcome" where
  "revive note =
     (let copy = spread note
      in andThen (getProp note ''createdAt'') (\<lambda>c.
         andThen (newDate c) (\<lambda>created.
         andThen (getProp note ''updatedAt'') (\<lambda>u.
         andThen (newDate u) (\<lambda>updated.
           Returns (JObj (AList.update ''updatedAt'' (JDate updated)
                           (AList.update ''createdAt'' (JDate created) copy))))))))"

fun mapOutcome :: "('a \<Rightarrow> 'b outcome) \<Rightarrow> 'a list \<Rightarrow> 'b list outcome" where
  "mapOutcome f [] = Returns []"
| "mapOutcome f (x # xs) = andThen (f x) (\<lambda>y. andThen (mapOutcome f xs) (\<lambda>ys. Returns (y # ys)))"

text \<open>\<open>v.map(f)\<close>: only an array has \<open>map\<close>; on any other JSON value the call throws.\<close>

definition arrayMap :: "jsval \<Rightarrow> (jsval \<Rightarrow> jsval outcome) \<Rightarrow> jsval list outcome" where
  "arrayMap v f = (case v of JArr xs \<Rightarrow> mapOutcome f xs | _ \<Rightarrow> Throws TypeError)"

definition getAllNotes :: "Storage \<Rightarrow> jsval list outcome" where
  "getAllNotes st =
     catch
       (case getItem st NOTES_STORAGE_KEY of
          None \<Rightarrow> Returns []
        | Some stored \<Rightarrow>
            if stored = [] then Returns []
            else andThen (JSON_parse stored) (\<lambda>notes. arrayMap notes revive))
       (\<lambda>error. Returns [])"

definition importNotes :: "Note list \<Rightarrow> Storage \<Rightarrow> Storage outcome" where
  "importNotes notes st =
     catch (setItem NOTES_STORAGE_KEY (stringify (JArr (map ofNote notes))) st)
           (\<lambda>error. Throws (Error ''Failed to import notes''))"

text \<open>\<open>findIndex\<close>: the index of the first element with the property, or \<open>-1\<close>.\<close>

fun findIndex :: "('a \<Rightarrow> bool) \<Rightarrow> 'a list \<Rightarrow> int" where
  "findIndex p [] = - 1"
| "findIndex p (x # xs) =
     (if p x then 0 else (let i = findIndex p xs in if i < 0 then - 1 else i + 1))"



section \<open>What is read back from the storage\<close>

text \<open>What the text of a value denotes: a date has become its ISO string, an invalid
  date \<open>null\<close>.\<close>

fun plain :: "jsval \<Rightarrow> jsval" where
  "plain (JArr xs) = JArr (map plain xs)"
| "plain (JObj kvs) = JObj (map (\<lambda>(k, v). (k, plain v)) kvs)"
| "plain (JDate None) = JNull"
| "plain (JDate (Some t)) = JStr (toISOString t)"
| "plain v = v"

text \<open>The values read back here: no numbers, and in every object the keys are distinct
  and none is written as a whole number.\<close>

fun clean :: "jsval \<Rightarrow> bool" where
  "clean (JNum n) = False"
| "clean (JArr xs) = list_all clean xs"
| "clean (JObj kvs) =
     (distinct (map fst kvs) \<and> list_all (\<lambda>(k, v). \<not> isIndexKey k \<and> clean v) kvs)"
| "clean v = True"

fun separated :: "token list list \<Rightarrow> token list" where
  "separated [] = []"
| "separated [x] = x"
| "separated (x # y # zs) = x @ TComma # separated (y # zs)"

fun tokensOf :: "jsval \<Rightarrow> token list" where
  "tokensOf JNull = [TNull]"
| "tokensOf (JBool b) = [if b then TTrue else TFalse]"
| "tokensOf (JNum n) = [TNumber n]"
| "tokensOf (JStr s) = [TString s]"
| "tokensOf (JArr xs) = TLBracket # separated (map tokensOf xs) @ [TRBracket]"
| "tokensOf (JObj kvs) =
     TLBrace # separated (map (\<lambda>(k, v). TString k # TColon # tokensOf v) kvs) @ [TRBrace]"
| "tokensOf (JDate None) = [TNull]"
| "tokensOf (JDate (Some t)) = [TString (toISOString t)]"

definition consToks :: "token list \<Rightarrow> token list outcome \<Rightarrow> token list outcome" where
  "consToks ts r = andThen r (\<lambda>rest. Returns (ts @ rest))"


definition validDates :: "Note \<Rightarrow> bool" where
  "validDates n = (validTime (createdAt n) \<and> validTime (updatedAt n))"

section \<open>Examples\<close>

definition filters1 :: SearchFilters where
  "filters1 = \<lparr>query = ''LOGIN'', f_priority = Some High, f_category = Some Bug,
     f_isFavorite = Some True, f_tags = Some [''Front'']\<rparr>"

definition note1 :: Note where
  "note1 = \<lparr>id' = ''note_1_a'', title = ''Fix Login'', content = ''empty passwords'',
     tags = [''frontend'', ''urgent''], priority = High, category = Bug,
     isFavorite = True, createdAt = 1000, updatedAt = 2000\<rparr>"

definition note2 :: Note where
  "note2 = \<lparr>id' = ''note_2_b'', title = ''Hooks'', content = ''useMemo'',
     tags = [''react''], priority = Medium, category = Learning,
     isFavorite = False, createdAt = 3000, updatedAt = 3000\<rparr>"

definition candidate1 :: PartialNote where
  "candidate1 = \<lparr>p_id = None, p_title = Some [], p_content = Some ''x'', p_tags = None,
     p_priority = Some High, p_category = Some Bug, p_isFavorite = None,
     p_createdAt = None, p_updatedAt = None\<rparr>"

definition form1 :: NoteFormData where
  "form1 = \<lparr>fd_title = '' Fix login '', fd_content = ''steps'', fd_tags = ''Bug, Urgent  frontend'',
     fd_priority = High, fd_category = Bug, fd_isFavorite = False\<rparr>"

definition created1 :: Note where
  "created1 = \<lparr>id' = ''note_1001_k3j9x'', title = [], content = [], tags = [],
     priority = Medium, category = Task, isFavorite = False,
     createdAt = 1000, updatedAt = 1000\<rparr>"

definition edited1 :: Note where
  "edited1 = \<lparr>id' = ''note_1001_k3j9x'', title = ''Fix login'', content = ''steps'',
     tags = [''bug'', ''urgent'', ''frontend''],
     priority = High, category = Bug, isFavorite = False,
     createdAt = 1000, updatedAt = 2000\<rparr>"

definition store0 :: Storage where
  "store0 = \<lparr>items = [], quota = 5000\<rparr>"

definition store1 :: Storage where
  "store1 = \<lparr>items = [(NOTES_STORAGE_KEY, stringify (JArr (map ofNote [note1, note2])))],
     quota = 5000\<rparr>"


text \<open>A zone on UTC all year, and a zone whose offset changes once, at the instant \<open>at\<close>:
  a local time that occurs twice or not at all is read with the offset before.\<close>

definition zoneUTC :: Zone where
  "zoneUTC t isUTC = 0"



section \<open>Properties of the filter\<close>

lemma includes_sublist: "str_includes s sub = sublist sub s"
  by (induction s) (auto simp: sublist_Cons_right)

text \<open>
  C1. For every note collection and filter set, \<open>filterNotes\<close> returns a subsequence
  of the collection in its order, and every note it returns meets every active field of
  the filter set: the query (a non-empty one), the priority, the category, the favourite
  flag and the tags (a non-empty list of them), all of them at once.
\<close>

theorem filterNotes_subseq_sound:
  "subseq (filterNotes N F) N \<and>
   (\<forall>n \<in> set (filterNotes N F).
      (query F \<noteq> [] \<longrightarrow> str_includes (searchableText n) (toLowerCase (query F))) \<and>
      (\<forall>p. f_priority F = Some p \<longrightarrow> priority n = p) \<and>
      (\<forall>c. f_category F = Some c \<longrightarrow> category n = c) \<and>
      (\<forall>b. f_isFavorite F = Some b \<longrightarrow> isFavorite n = b) \<and>
      (\<forall>ts. f_tags F = Some ts \<longrightarrow> ts \<noteq> [] \<longrightarrow>
         (\<exists>t \<in> set ts. \<exists>nt \<in> set (tags n). str_includes (toLowerCase nt) (toLowerCase t))))"
proof -
  have "subseq (filterNotes N F) N"
    by (simp add: filterNotes_def)
  moreover have "\<forall>n \<in> set (filterNotes N F).
      (query F \<noteq> [] \<longrightarrow> str_includes (searchableText n) (toLowerCase (query F))) \<and>
      (\<forall>p. f_priority F = Some p \<longrightarrow> priority n = p) \<and>
      (\<forall>c. f_category F = Some c \<longrightarrow> category n = c) \<and>
      (\<forall>b. f_isFavorite F = Some b \<longrightarrow> isFavorite n = b) \<and>
      (\<forall>ts. f_tags F = Some ts \<longrightarrow> ts \<noteq> [] \<longrightarrow>
         (\<exists>t \<in> set ts. \<exists>nt \<in> set (tags n). str_includes (toLowerCase nt) (toLowerCase t)))"
    by (auto simp: filterNotes_def keeps_def hasMatchingTag_def list_ex_iff
        split: if_splits option.splits)
  ultimately show ?thesis by blast
qed

text \<open>Of two notes, the filter set \<open>filters1\<close> keeps the one that meets all its fields.\<close>

theorem filterNotes_subseq_sound_witness:
  "filterNotes [note2, note1] filters1 = [note1] \<and>
   subseq [note1] [note2, note1] \<and>
   query filters1 \<noteq> [] \<and>
   str_includes (searchableText note1) (toLowerCase (query filters1)) \<and>
   f_priority filters1 = Some (priority note1) \<and>
   f_category filters1 = Some (category note1) \<and>
   f_isFavorite filters1 = Some (isFavorite note1) \<and>
   f_tags filters1 = Some [''Front''] \<and>
   (\<exists>t \<in> set [''Front'']. \<exists>nt \<in> set (tags note1).
      str_includes (toLowerCase nt) (toLowerCase t))"
proof -
  have run: "filterNotes [note2, note1] filters1 = [note1]"
    by code_simp
  have fields: "query filters1 \<noteq> [] \<and> f_priority filters1 = Some (priority note1) \<and>
      f_category filters1 = Some (category note1) \<and>
      f_isFavorite filters1 = Some (isFavorite note1) \<and> f_tags filters1 = Some [''Front'']"
    by (simp add: filters1_def note1_def)
  from filterNotes_subseq_sound [of "[note2, note1]" filters1] run fields
  show ?thesis by simp
qed






section \<open>Properties of validation\<close>

lemma violated_iff:
  "violated c TitleRequired = blank (p_title c)"
  "violated c ContentRequired = blank (p_content c)"
  "violated c PriorityRequired = (p_priority c = None)"
  "violated c CategoryRequired = (p_category c = None)"
proof -
  show "violated c TitleRequired = blank (p_title c)"
    by (cases "p_title c") (simp_all add: blank_def)
  show "violated c ContentRequired = blank (p_content c)"
    by (cases "p_content c") (simp_all add: blank_def)
  show "violated c PriorityRequired = (p_priority c = None)"
  proof (cases "p_priority c")
    case None then show ?thesis by auto
  next
    case (Some p) then show ?thesis by (cases p) auto
  qed
  show "violated c CategoryRequired = (p_category c = None)"
  proof (cases "p_category c")
    case None then show ?thesis by auto
  next
    case (Some k) then show ?thesis by (cases k) auto
  qed
qed

text \<open>
  C5. \<open>validateNote\<close> returns one message for each violated rule, in the order title,
  content, priority, category: the title and the content are there and not empty
  after trimming, the priority and the category are values of their enumerations. It
  returns no message exactly when no rule is violated, and for the candidate with the
  empty title, content \<open>x\<close>, priority high and category bug the one message on the
  title.
\<close>

theorem validateNote_rules:
  "validateNote c = map message (filter (violated c)
      [TitleRequired, ContentRequired, PriorityRequired, CategoryRequired]) \<and>
   (validateNote c = [] \<longleftrightarrow> (\<forall>r. \<not> violated c r)) \<and>
   validateNote candidate1 = [''Title is required'']"
proof -
  have rules: "validateNote c = map message (filter (violated c)
      [TitleRequired, ContentRequired, PriorityRequired, CategoryRequired])"
    by (simp add: validateNote_def violated_iff Let_def del: violated.simps)
  have "(\<forall>r. \<not> violated c r) =
      (\<not> violated c TitleRequired \<and> \<not> violated c ContentRequired \<and>
       \<not> violated c PriorityRequired \<and> \<not> violated c CategoryRequired)"
    by (metis Rule.exhaust)
  then have none: "validateNote c = [] \<longleftrightarrow> (\<forall>r. \<not> violated c r)"
    unfolding rules by (simp add: filter_empty_conv del: violated.simps)
  have "validateNote candidate1 = [''Title is required'']"
    by (simp add: validateNote_def candidate1_def blank_def trim_def isWhiteSpace_def)
  with rules none show ?thesis by blast
qed

section \<open>Properties of sorting\<close>

lemma insertBy_insort_key:
  assumes "\<And>a b. (cmp a b \<le> 0) = (key a \<le> key b)"
  shows "insertBy cmp x ys = insort_key key x ys"
  by (induction ys) (simp_all add: assms)

lemma sortBy_sort_key:
  assumes "\<And>a b. (cmp a b \<le> 0) = (key a \<le> key b)"
  shows "sortBy cmp xs = sort_key key xs"
proof (induction xs)
  case Nil
  show ?case by (simp add: sortBy_def)
next
  case (Cons x xs)
  have "sortBy cmp (x # xs) = insertBy cmp x (sortBy cmp xs)"
    by (simp add: sortBy_def)
  also have "\<dots> = insort_key key x (sort_key key xs)"
    by (simp add: Cons.IH insertBy_insort_key [OF assms])
  finally show ?case by simp
qed

lemma sortNotes_Oldest: "sortNotes lc (xs :: Note list) Oldest = sort_key createdAt xs"
  by (simp add: sortBy_sort_key [where key = createdAt])

lemma sortNotes_Newest: "sortNotes lc (xs :: Note list) Newest = sort_key (\<lambda>n. - createdAt n) xs"
  by (simp add: sortBy_sort_key [where key = "\<lambda>n. - createdAt n"])

lemma sort_key_rev_unique:
  fixes S :: "Note list"
  assumes d: "distinct (map createdAt S)" and s: "sorted (map (\<lambda>n. - createdAt n) S)"
  shows "sort_key createdAt S = rev S"
proof (rule properties_for_sort_key)
  show "mset (rev S) = mset S" by simp
next
  fix k assume "k \<in> set (rev S)"
  then have k: "k \<in> set S" by simp
  have inj: "inj_on createdAt (set S)" using d by (simp add: distinct_map)
  have eq: "\<And>x. x \<in> set S \<Longrightarrow> (createdAt k = createdAt x) = (k = x)"
    using inj k by (auto dest: inj_onD)
  have "filter (\<lambda>x. createdAt k = createdAt x) (rev S) = rev (filter (\<lambda>x. createdAt k = createdAt x) S)"
    by (simp add: rev_filter)
  moreover have "filter (\<lambda>x. createdAt k = createdAt x) S = filter (\<lambda>x. k = x) S"
    by (rule filter_cong) (auto simp: eq)
  moreover have "distinct S" using d by (simp add: distinct_map)
  then have "filter (\<lambda>x. k = x) S = [k]" using k
    by (induction S) (auto simp: filter_empty_conv)
  ultimately show "filter (\<lambda>x. createdAt k = createdAt x) (rev S) = filter (\<lambda>x. createdAt k = createdAt x) S"
    by simp
next
  have "map createdAt (rev S) = rev (map createdAt S)" by (simp add: rev_map)
  moreover have "sorted (rev (map createdAt S))"
    using s by (induction S) (auto simp: sorted_append)
  ultimately show "sorted (map createdAt (rev S))" by simp
qed

lemma sort_key_distinct_rev:
  fixes N :: "Note list"
  assumes d: "distinct (map createdAt N)"
  shows "sort_key createdAt N = rev (sort_key (\<lambda>n. - createdAt n) N)"
proof -
  let ?S = "sort_key (\<lambda>n. - createdAt n) N"
  have inj: "inj_on createdAt (set N)" and dN: "distinct N"
    using d by (simp_all add: distinct_map)
  have one: "filter (\<lambda>x. createdAt k = createdAt x) xs = [k]"
    if "k \<in> set xs" "distinct xs" "set xs = set N" for k and xs :: "Note list"
  proof -
    have "filter (\<lambda>x. createdAt k = createdAt x) xs = filter (\<lambda>x. k = x) xs"
      using that inj by (intro filter_cong) (auto dest: inj_onD)
    also have "\<dots> = [k]"
      using that(1,2) by (induction xs) (auto simp: filter_empty_conv)
    finally show ?thesis .
  qed
  have "sort_key createdAt N = rev ?S"
  proof (rule properties_for_sort_key)
    show "mset (rev ?S) = mset N" by simp
  next
    fix k assume "k \<in> set (rev ?S)"
    then have k: "k \<in> set N" by simp
    have "distinct (rev ?S)" using dN by simp
    then have "filter (\<lambda>x. createdAt k = createdAt x) (rev ?S) = [k]"
      using k by (intro one) simp_all
    moreover have "filter (\<lambda>x. createdAt k = createdAt x) N = [k]"
      using k dN by (intro one) simp_all
    ultimately show "filter (\<lambda>x. createdAt k = createdAt x) (rev ?S)
        = filter (\<lambda>x. createdAt k = createdAt x) N"
      by simp
  next
    have "sorted (map (\<lambda>n. - createdAt n) ?S)" by simp
    then have "sorted (rev (map createdAt xs))" if "xs = ?S" for xs
      unfolding that [symmetric] by (induction xs) (auto simp: sorted_append)
    then show "sorted (map createdAt (rev ?S))" by (simp add: rev_map)
  qed
  then show ?thesis .
qed

lemma sorted_falling:
  fixes xs :: "Note list"
  shows "sorted (map (\<lambda>n. - createdAt n) xs) \<Longrightarrow> sorted (rev (map createdAt xs))"
  by (induction xs) (auto simp: sorted_append)

text \<open>
  C7. \<open>Newest\<close> sorts by \<open>createdAt\<close> falling and \<open>Oldest\<close> rising, each giving the
  notes it was given, every one as often as it was there. When the \<open>createdAt\<close> of the
  notes are pairwise distinct, sorting oldest first what was sorted newest first gives
  the reverse of it, which is also what sorting the collection itself oldest first gives.
\<close>

theorem sortNotes_newest_then_oldest:
  "(distinct (map createdAt N) \<longrightarrow>
      sortNotes localeCompare (sortNotes localeCompare N Newest) Oldest
        = rev (sortNotes localeCompare N Newest) \<and>
      sortNotes localeCompare N Oldest = rev (sortNotes localeCompare N Newest)) \<and>
   sorted (rev (map createdAt (sortNotes localeCompare N Newest))) \<and>
   sorted (map createdAt (sortNotes localeCompare N Oldest)) \<and>
   mset (sortNotes localeCompare N Newest) = mset N \<and>
   mset (sortNotes localeCompare N Oldest) = mset N"
proof -
  let ?S = "sort_key (\<lambda>n. - createdAt n) N"
  have "sort_key createdAt ?S = rev ?S \<and> sort_key createdAt N = rev ?S"
    if d: "distinct (map createdAt N)"
  proof -
    have "mset (map createdAt ?S) = mset (map createdAt N)"
      by simp
    then have "distinct (map createdAt ?S)"
      using d by (metis mset_eq_imp_distinct_iff)
    moreover have "sorted (map (\<lambda>n. - createdAt n) ?S)"
      by simp
    ultimately have "sort_key createdAt ?S = rev ?S"
      by (rule sort_key_rev_unique)
    with sort_key_distinct_rev [OF d] show ?thesis by simp
  qed
  moreover have "sorted (rev (map createdAt ?S))"
    by (rule sorted_falling) simp
  moreover have "sorted (map createdAt (sort_key createdAt N))"
    by simp
  ultimately show ?thesis
    by (simp only: sortNotes_Oldest sortNotes_Newest mset_sort) simp
qed

text \<open>Three notes created at 3000, 7000 and 1000, in this order.\<close>

theorem sortNotes_newest_then_oldest_witness:
  "distinct (map createdAt [note2, note1\<lparr>createdAt := 7000\<rparr>, note1]) \<and>
   map createdAt [note2, note1\<lparr>createdAt := 7000\<rparr>, note1] = [3000, 7000, 1000] \<and>
   sortNotes (\<lambda>a b. 0) [note2, note1\<lparr>createdAt := 7000\<rparr>, note1] Newest
     = [note1\<lparr>createdAt := 7000\<rparr>, note2, note1] \<and>
   sortNotes (\<lambda>a b. 0) [note2, note1\<lparr>createdAt := 7000\<rparr>, note1] Oldest
     = [note1, note2, note1\<lparr>createdAt := 7000\<rparr>] \<and>
   sortNotes (\<lambda>a b. 0)
       (sortNotes (\<lambda>a b. 0) [note2, note1\<lparr>createdAt := 7000\<rparr>, note1] Newest) Oldest
     = [note1, note2, note1\<lparr>createdAt := 7000\<rparr>]"
proof -
  have d: "distinct (map createdAt [note2, note1\<lparr>createdAt := 7000\<rparr>, note1])"
    "map createdAt [note2, note1\<lparr>createdAt := 7000\<rparr>, note1] = [3000, 7000, 1000]"
    by (simp_all add: note1_def note2_def)
  have n: "sortNotes (\<lambda>a b. 0) [note2, note1\<lparr>createdAt := 7000\<rparr>, note1] Newest
     = [note1\<lparr>createdAt := 7000\<rparr>, note2, note1]"
    by (simp add: sortBy_def note1_def note2_def)
  from sortNotes_newest_then_oldest [of "[note2, note1\<lparr>createdAt := 7000\<rparr>, note1]" "\<lambda>a b. 0"]
    d n show ?thesis
    by simp
qed

section \<open>Properties of the lifecycle\<close>

lemma showNat_not_Nil: "showNat n \<noteq> []"
  by (subst showNat.simps) simp

lemma generateNoteId_not_Nil: "generateNoteId idNow rnd \<noteq> []"
  by (simp add: generateNoteId_def)

lemma handleSave_Some:
  assumes "handleSave note fd now idNow rnd = Some n'"
  shows "updatedAt n' = now"
    and "createdAt n' = (case note of None \<Rightarrow> now | Some n \<Rightarrow> createdAt n)"
    and "id' n' = (case note of None \<Rightarrow> generateNoteId idNow rnd
                   | Some n \<Rightarrow> if id' n \<noteq> [] then id' n else generateNoteId idNow rnd)"
  using assms by (auto simp: handleSave_def Let_def split: if_splits)

lemma produced_invariant:
  "produced t n \<Longrightarrow> createdAt n \<le> updatedAt n \<and> updatedAt n \<le> t \<and> id' n \<noteq> []"
proof (induction rule: produced.induct)
  case (created now idNow rnd)
  then show ?case
    by (simp add: createNewNote_def noOverrides_def orDefault_def generateNoteId_not_Nil)
next
  case (seeded now idNow rnd t c ts p k f)
  then show ?case
    by (simp add: createNewNote_def noOverrides_def orDefault_def generateNoteId_not_Nil)
next
  case (saved now idNow fd rnd n)
  from handleSave_Some [OF saved(2)] saved(1) show ?case
    by (simp add: generateNoteId_not_Nil)
next
  case (edited t n now idNow fd rnd n')
  from handleSave_Some [OF edited(4)] edited(1-3) edited.IH show ?case
    by simp
next
  case (toggled t n now)
  then show ?case by (simp add: toggleFavorite_def)
qed

text \<open>
  C8. Every note the lifecycle operations produce, under a clock that does not go back,
  has \<open>createdAt \<le> updatedAt\<close>. \<open>createNewNote()\<close> sets both to the same reading of
  the clock; saving the form for a produced note keeps its \<open>id\<close> and \<open>createdAt\<close>
  and sets \<open>updatedAt\<close> to the clock; toggling the favourite flag keeps \<open>id\<close> and
  \<open>createdAt\<close>, flips the flag and sets \<open>updatedAt\<close> to the clock.
\<close>

theorem lifecycle_timestamps:
  "(produced t n \<longrightarrow> createdAt n \<le> updatedAt n) \<and>
   createdAt (createNewNote now idNow rnd noOverrides) = now \<and>
   updatedAt (createNewNote now idNow rnd noOverrides) = now \<and>
   (produced t n \<and> handleSave (Some n) fd now idNow rnd = Some n' \<longrightarrow>
      id' n' = id' n \<and> createdAt n' = createdAt n \<and> updatedAt n' = now) \<and>
   (handleToggleFavorite notes i now = Some n'' \<longrightarrow>
      (\<exists>m \<in> set notes. id' m = i \<and> id' n'' = id' m \<and> createdAt n'' = createdAt m \<and>
         updatedAt n'' = now \<and> isFavorite n'' = (\<not> isFavorite m)))"
proof -
  have inv: "produced t n \<longrightarrow> createdAt n \<le> updatedAt n"
    by (simp add: produced_invariant)
  have new: "createdAt (createNewNote now idNow rnd noOverrides) = now \<and>
      updatedAt (createNewNote now idNow rnd noOverrides) = now"
    by (simp add: createNewNote_def noOverrides_def orDefault_def)
  have edit: "produced t n \<and> handleSave (Some n) fd now idNow rnd = Some n' \<longrightarrow>
      id' n' = id' n \<and> createdAt n' = createdAt n \<and> updatedAt n' = now"
  proof
    assume a: "produced t n \<and> handleSave (Some n) fd now idNow rnd = Some n'"
    then have "id' n \<noteq> []" using produced_invariant [of t n] by blast
    with handleSave_Some [of "Some n" fd now idNow rnd n'] a
    show "id' n' = id' n \<and> createdAt n' = createdAt n \<and> updatedAt n' = now" by simp
  qed
  have toggle: "handleToggleFavorite notes i now = Some n'' \<longrightarrow>
      (\<exists>m \<in> set notes. id' m = i \<and> id' n'' = id' m \<and> createdAt n'' = createdAt m \<and>
         updatedAt n'' = now \<and> isFavorite n'' = (\<not> isFavorite m))"
    by (auto simp: handleToggleFavorite_def toggleFavorite_def find_Some_iff
        split: option.splits)
  from inv new edit toggle show ?thesis by blast
qed

text \<open>A note is created at 1000, edited at 2000 and toggled at 3000.\<close>

theorem lifecycle_timestamps_witness:
  "produced 1001 created1 \<and> createdAt created1 \<le> updatedAt created1 \<and>
   handleSave (Some created1) form1 2000 2001 ''zz'' = Some edited1 \<and>
   id' edited1 = id' created1 \<and> createdAt edited1 = createdAt created1 \<and>
   updatedAt edited1 = 2000 \<and> produced 2001 edited1 \<and>
   createdAt edited1 \<le> updatedAt edited1 \<and>
   handleToggleFavorite [note2, edited1] ''note_1001_k3j9x'' 3000
     = Some (edited1\<lparr>isFavorite := True, updatedAt := 3000\<rparr>)"
proof -
  have c: "createNewNote 1000 1001 ''k3j9x'' noOverrides = created1"
    by code_simp
  have p1: "produced 1001 created1"
    using produced.created [of 1000 1001 "''k3j9x''"] by (simp add: c)
  have e: "handleSave (Some created1) form1 2000 2001 ''zz'' = Some edited1"
    by code_simp
  have p2: "produced 2001 edited1"
    using produced.edited [OF p1 _ _ e] by simp
  have t: "handleToggleFavorite [note2, edited1] ''note_1001_k3j9x'' 3000
     = Some (edited1\<lparr>isFavorite := True, updatedAt := 3000\<rparr>)"
    by (simp add: handleToggleFavorite_def toggleFavorite_def note2_def edited1_def)
  from lifecycle_timestamps [where t = 1001 and n = created1 and fd = form1 and now = 2000
      and idNow = 2001 and rnd = "''zz''" and n' = edited1]
    lifecycle_timestamps [where t = 2001 and n = edited1, THEN conjunct1]
    p1 p2 e t
  show ?thesis by simp
qed

section \<open>Properties of the dates\<close>

lemma yearDown_le: "dayFromYear (yearDown day y) \<le> day"
  by (induction day y rule: yearDown.induct) (subst yearDown.simps, simp)

lemma yearUp_bounds:
  "dayFromYear y \<le> day \<Longrightarrow>
   dayFromYear (yearUp day y) \<le> day \<and> day < dayFromYear (yearUp day y + 1)"
  by (induction day y rule: yearUp.induct) (subst (1 2) yearUp.simps, simp)

lemma yearFromDay_bounds:
  "dayFromYear (yearFromDay day) \<le> day \<and> day < dayFromYear (yearFromDay day + 1)"
  unfolding yearFromDay_def by (rule yearUp_bounds) (rule yearDown_le)

lemma div_bounds:
  fixes a n :: int
  assumes "0 < n"
  shows "n * (a div n) \<le> a" "a < n * (a div n) + n"
proof -
  have "a = n * (a div n) + a mod n" by simp
  moreover have "0 \<le> a mod n" "a mod n < n" using assms by simp_all
  ultimately show "n * (a div n) \<le> a" "a < n * (a div n) + n" by linarith+
qed

lemma year_lower:
  fixes y day p1 p2 p3 :: int
  assumes "day < 365 * (y + 1 - 1970) + p1 - p2 + p3" "- 100000000 \<le> day"
     "4 * p1 \<le> y + 1 - 1969" "y + 1 - 1901 < 100 * p2 + 100" "400 * p3 \<le> y + 1 - 1601"
  shows "- 999999 \<le> y"
proof (rule ccontr)
  assume "\<not> - 999999 \<le> y"
  then have y: "y \<le> - 1000000" by simp
  have "400 * day < 146000 * (y - 1969) + 400 * p1 - 400 * p2 + 400 * p3"
    using assms(1) by simp
  also have "\<dots> \<le> 146000 * (y - 1969) + 100 * (y - 1968) - 4 * (y - 2000) + (y - 1600)"
    using assms(3-5) by simp
  also have "\<dots> = 146097 * y - 287664400" by simp
  also have "\<dots> \<le> 146097 * (- 1000000) - 287664400" using y by simp
  finally have "400 * day < - 146384664400" by simp
  with assms(2) show False by linarith
qed

lemma year_upper:
  fixes y day q1 q2 q3 :: int
  assumes "365 * (y - 1970) + q1 - q2 + q3 \<le> day" "day \<le> 100000000"
     "y - 1969 < 4 * q1 + 4" "100 * q2 \<le> y - 1901" "y - 1601 < 400 * q3 + 400"
  shows "y \<le> 999999"
proof (rule ccontr)
  assume "\<not> y \<le> 999999"
  then have y: "1000000 \<le> y" by simp
  have "146097 * 1000000 - 287811596 \<le> 146097 * y - 287811596"
    using y by simp
  also have "\<dots> = 146000 * (y - 1970) + 100 * (y - 1972) - 4 * (y - 1901) + (y - 2000)"
    by simp
  also have "\<dots> \<le> 146000 * (y - 1970) + 400 * q1 - 400 * q2 + 400 * q3"
    using assms(3-5) by simp
  also have "\<dots> \<le> 400 * day"
    using assms(1) by simp
  finally have "145809188404 \<le> 400 * day" by simp
  with assms(2) show False by linarith
qed

lemma year_range:
  assumes "dayFromYear y \<le> day" "day < dayFromYear (y + 1)"
    and "- 100000000 \<le> day" "day \<le> 100000000"
  shows "- 999999 \<le> y \<and> y \<le> 999999"
proof -
  have "- 999999 \<le> y"
    using assms(2,3) div_bounds(1) [of 4 "y + 1 - 1969"] div_bounds(2) [of 100 "y + 1 - 1901"]
      div_bounds(1) [of 400 "y + 1 - 1601"]
    unfolding dayFromYear_def by (intro year_lower) simp_all
  moreover have "y \<le> 999999"
    using assms(1,4) div_bounds(2) [of 4 "y - 1969"] div_bounds(1) [of 100 "y - 1901"]
      div_bounds(2) [of 400 "y - 1601"]
    unfolding dayFromYear_def by (intro year_upper) simp_all
  ultimately show ?thesis ..
qed

lemma sum_monthLengths: "sum_list (monthLengths y) = daysInYear y"
  by (simp add: monthLengths_def daysInYear_def)

lemma monthFromDay_props:
  assumes "0 \<le> d" "d < sum_list ls" "monthFromDay ls d = (m, r)"
  shows "m < length ls \<and> 0 \<le> r \<and> r < ls ! m \<and> sum_list (take m ls) + r = d"
  using assms
proof (induction ls arbitrary: d m r)
  case Nil
  then show ?case by simp
next
  case (Cons l ls)
  show ?case
  proof (cases "d < l")
    case True
    with Cons.prems show ?thesis by simp
  next
    case False
    obtain m' r' where mr: "monthFromDay ls (d - l) = (m', r')"
      by (cases "monthFromDay ls (d - l)")
    with False Cons.prems have m: "m = Suc m'" "r = r'" by simp_all
    from False Cons.prems have "0 \<le> d - l" "d - l < sum_list ls" by simp_all
    from Cons.IH [OF this mr] m show ?thesis by simp
  qed
qed

lemma length_pad: "length (pad k n) = k"
  by (induction k arbitrary: n) simp_all

lemma digitVal_digitChar: "d < 10 \<Longrightarrow> digitVal (digitChar d) = Some d"
  by (simp add: digitVal_def digitChar_def Let_def)

lemma readNat_pad:
  "n < 10 ^ k \<Longrightarrow> readNat (k + j) acc (pad k n @ s) = readNat j (acc * 10 ^ k + n) s"
proof (induction k arbitrary: n j s)
  case 0
  then show ?case by simp
next
  case (Suc k)
  from Suc.prems have small: "n div 10 < 10 ^ k"
    by (simp add: less_mult_imp_div_less mult.commute)
  have "readNat (Suc k + j) acc (pad (Suc k) n @ s)
      = readNat (k + Suc j) acc (pad k (n div 10) @ (digitChar (n mod 10) # s))"
    by simp
  also have "\<dots> = readNat (Suc j) (acc * 10 ^ k + n div 10) (digitChar (n mod 10) # s)"
    by (rule Suc.IH [OF small])
  also have "\<dots> = readNat j (10 * (acc * 10 ^ k + n div 10) + n mod 10) s"
    by (simp add: digitVal_digitChar)
  also have "10 * (acc * 10 ^ k + n div 10) + n mod 10 = acc * 10 ^ Suc k + n"
    by (simp add: algebra_simps)
  finally show ?case .
qed

lemma readNat_pad0: "n < 10 ^ k \<Longrightarrow> readNat k 0 (pad k n @ s) = Some (n, s)"
  using readNat_pad [of n k 0 0 s] by simp

lemma time_of_day:
  fixes tm :: int
  assumes "0 \<le> tm" "tm < 86400000"
  shows "0 \<le> tm div 1000 div 60 div 60" "tm div 1000 div 60 div 60 \<le> 23"
    and "((tm div 1000 div 60 div 60 * 60 + tm div 1000 div 60 mod 60) * 60 + tm div 1000 mod 60) * 1000
         + tm mod 1000 = tm"
proof -
  have "1000 * (tm div 1000) \<le> tm" by (rule div_bounds) simp
  with assms have s: "tm div 1000 < 86400" by simp
  have "60 * (tm div 1000 div 60) \<le> tm div 1000" by (rule div_bounds) simp
  with s have m: "tm div 1000 div 60 < 1440" by simp
  have "60 * (tm div 1000 div 60 div 60) \<le> tm div 1000 div 60" by (rule div_bounds) simp
  with m show "tm div 1000 div 60 div 60 \<le> 23" by simp
  show "0 \<le> tm div 1000 div 60 div 60"
    using assms(1) by (simp add: pos_imp_zdiv_nonneg_iff)
  show "((tm div 1000 div 60 div 60 * 60 + tm div 1000 div 60 mod 60) * 60 + tm div 1000 mod 60) * 1000
         + tm mod 1000 = tm"
    by simp
qed

lemma readYear_showYear:
  assumes "- 999999 \<le> y" "y \<le> 999999"
  shows "readYear (showYear y @ CHR ''-'' # s) = Some (y, CHR ''-'' # s)"
proof (cases "0 \<le> y \<and> y \<le> 9999")
  case True
  then have n: "nat y < 10 ^ 4" by (simp add: nat_less_iff)
  have ne: "pad 4 (nat y) \<noteq> []"
    using length_pad [of 4 "nat y"] by auto
  obtain c cs where cs: "pad 4 (nat y) = c # cs"
    using ne by (cases "pad 4 (nat y)") auto
  have "readNat 4 0 (pad 4 (nat y) @ CHR ''-'' # s) \<noteq> None"
    using readNat_pad0 [OF n] by simp
  have c: "digitVal c \<noteq> None"
    using readNat_pad0 [OF n, of "CHR ''-'' # s"] unfolding cs
    by (auto simp: numeral_eq_Suc split: option.splits)
  have "c \<noteq> CHR ''+''" "c \<noteq> CHR ''-''"
    using c by (auto simp: digitVal_def)
  then show ?thesis
    using True readNat_pad0 [OF n, of "CHR ''-'' # s"]
    by (simp add: readYear_def showYear_def cs [symmetric])
       (simp add: cs)
next
  case False
  with assms have n: "nat \<bar>y\<bar> < 10 ^ 6" by simp
  show ?thesis
  proof (cases "y < 0")
    case True
    then have "0 < nat \<bar>y\<bar>" "- int (nat \<bar>y\<bar>) = y" by simp_all
    then show ?thesis
      using True False readNat_pad0 [OF n, of "CHR ''-'' # s"]
      by (simp add: readYear_def showYear_def)
  next
    case pos: False
    with False have "9999 < nat \<bar>y\<bar>" "int (nat \<bar>y\<bar>) = y" by simp_all
    then show ?thesis
      using pos False readNat_pad0 [OF n, of "CHR ''-'' # s"]
      by (simp add: readYear_def showYear_def)
  qed
qed

lemma parseISO_fields:
  assumes "- 999999 \<le> y" "y \<le> 999999" "1 \<le> mo" "mo \<le> 12" "1 \<le> d" "d \<le> 31"
    and "int d \<le> monthLengths y ! (mo - 1)" "h \<le> 23" "mi \<le> 59" "sec \<le> 59" "ms \<le> 999"
  shows "parseISO (showYear y @ ''-'' @ pad 2 mo @ ''-'' @ pad 2 d @ ''T'' @
           pad 2 h @ '':'' @ pad 2 mi @ '':'' @ pad 2 sec @ ''.'' @ pad 3 ms @ ''Z'')
         = (let t = (dayFromYear y + sum_list (take (mo - 1) (monthLengths y)) + int d - 1) * msPerDay
                    + ((int h * 60 + int mi) * 60 + int sec) * 1000 + int ms
            in if validTime t then Some t else None)"
proof -
  have small: "mo < 10 ^ 2" "d < 10 ^ 2" "h < 10 ^ 2" "mi < 10 ^ 2" "sec < 10 ^ 2" "ms < 10 ^ 3"
    using assms by simp_all
  show ?thesis
    unfolding parseISO_def
    using assms
    by (simp add: readYear_showYear [OF assms(1,2)] expectChar_def
        readNat_pad0 [OF small(1)] readNat_pad0 [OF small(2)] readNat_pad0 [OF small(3)]
        readNat_pad0 [OF small(4)] readNat_pad0 [OF small(5)] readNat_pad0 [OF small(6)])
qed

lemma monthLengths_le: "m < 12 \<Longrightarrow> monthLengths y ! m \<le> 31"
proof -
  have "\<forall>l \<in> set (monthLengths y). l \<le> 31"
    by (simp add: monthLengths_def)
  moreover assume "m < 12"
  then have "monthLengths y ! m \<in> set (monthLengths y)"
    by (intro nth_mem) (simp add: monthLengths_def)
  ultimately show ?thesis by blast
qed

theorem parseISO_toISOString:
  assumes "validTime t"
  shows "parseISO (toISOString t) = Some t"
proof -
  define day where "day = t div msPerDay"
  define tm where "tm = t mod msPerDay"
  define y where "y = yearFromDay day"
  define mr where "mr = monthFromDay (monthLengths y) (day - dayFromYear y)"
  define m r where "m = fst mr" and "r = snd mr"
  define h mi sec ms where "h = tm div 1000 div 60 div 60" and "mi = tm div 1000 div 60 mod 60"
    and "sec = tm div 1000 mod 60" and "ms = tm mod 1000"
  have mr: "monthFromDay (monthLengths y) (day - dayFromYear y) = (m, r)"
    by (simp add: m_def r_def mr_def)
  have t: "t = day * msPerDay + tm" and tm: "0 \<le> tm" "tm < 86400000"
    by (simp_all add: day_def tm_def msPerDay_def)
  have "- 8640000000000000 div msPerDay \<le> day" "day \<le> 8640000000000000 div msPerDay"
    using assms unfolding day_def validTime_def msPerDay_def
    by (auto intro: zdiv_mono1)
  then have day: "- 100000000 \<le> day" "day \<le> 100000000"
    by (simp_all add: msPerDay_def)
  have yb: "dayFromYear y \<le> day" "day < dayFromYear (y + 1)"
    using yearFromDay_bounds [of day] by (simp_all add: y_def)
  have yr: "- 999999 \<le> y" "y \<le> 999999"
    using year_range [OF yb day] by simp_all
  have "0 \<le> day - dayFromYear y" "day - dayFromYear y < sum_list (monthLengths y)"
    using yb by (simp_all add: sum_monthLengths dayFromYear_step)
  from monthFromDay_props [OF this mr]
  have m: "m < 12" and r: "0 \<le> r" "r < monthLengths y ! m"
    and sum: "sum_list (take m (monthLengths y)) + r = day - dayFromYear y"
    by (simp_all add: monthLengths_def)
  have r31: "r < 31" using r(2) monthLengths_le [OF m, of y] by simp
  have hb: "0 \<le> h" "h \<le> 23" and recompose: "((h * 60 + mi) * 60 + sec) * 1000 + ms = tm"
    using time_of_day [OF tm] by (simp_all add: h_def mi_def sec_def ms_def)
  have fb: "0 \<le> mi" "mi \<le> 59" "0 \<le> sec" "sec \<le> 59" "0 \<le> ms" "ms \<le> 999"
    by (simp_all add: mi_def sec_def ms_def)
  have iso: "toISOString t = showYear y @ ''-'' @ pad 2 (Suc m) @ ''-'' @ pad 2 (Suc (nat r)) @ ''T'' @
      pad 2 (nat h) @ '':'' @ pad 2 (nat mi) @ '':'' @
      pad 2 (nat sec) @ ''.'' @ pad 3 (nat ms) @ ''Z''"
    unfolding toISOString_def Let_def day_def [symmetric] tm_def [symmetric] y_def [symmetric] mr
      h_def mi_def sec_def ms_def
    by simp
  have fields: "parseISO (toISOString t) =
      (let t' = (dayFromYear y + sum_list (take (Suc m - 1) (monthLengths y)) + int (Suc (nat r)) - 1) * msPerDay
                + ((int (nat h) * 60 + int (nat mi)) * 60 + int (nat sec)) * 1000 + int (nat ms)
       in if validTime t' then Some t' else None)"
    unfolding iso
  proof (rule parseISO_fields [OF yr])
    show "1 \<le> Suc m" "Suc m \<le> 12" "1 \<le> Suc (nat r)" "Suc (nat r) \<le> 31"
      using m r31 r(1) by simp_all
    show "int (Suc (nat r)) \<le> monthLengths y ! (Suc m - 1)"
      using r by simp
    show "nat h \<le> 23" "nat mi \<le> 59" "nat sec \<le> 59" "nat ms \<le> 999"
      using hb fb by simp_all
  qed
  have "(dayFromYear y + sum_list (take (Suc m - 1) (monthLengths y)) + int (Suc (nat r)) - 1) * msPerDay
        + ((int (nat h) * 60 + int (nat mi)) * 60 + int (nat sec)) * 1000 + int (nat ms) = t"
    using hb fb recompose sum r(1) unfolding t by simp
  with fields assms show ?thesis by simp
qed

section \<open>Properties of the statistics\<close>

lemma priorities_count:
  "map_of (foldl (\<lambda>acc note. countInto acc (f note)) acc0 N) p =
   (let c = orZero (map_of acc0 p) + length (filter (\<lambda>n. f n = p) N)
    in if c = 0 \<and> map_of acc0 p = None then None else Some c)"
  apply (induction N arbitrary: acc0)
   apply (auto simp: countInto_def orZero_def Let_def update_conv' split: option.splits if_splits)
  done

text \<open>
  C3, as stated, fails: the counts start from the empty object and only the priority of
  a note sets a key. For two notes of high and one of medium priority the keys are
  \<open>high\<close> and \<open>medium\<close>, and \<open>low\<close> is missing (not zero); for no notes there is no key.
\<close>

theorem getNoteStats_priorities_sparse:
  "map fst (priorities (getNoteStats zoneUTC (\<lambda>k. 5000) [note1, note2, note1])) = [High, Medium] \<and>
   map_of (priorities (getNoteStats zoneUTC (\<lambda>k. 5000) [note1, note2, note1])) Low = None \<and>
   priorities (getNoteStats zoneUTC (\<lambda>k. 5000) []) = []"
  by (simp add: getNoteStats_def countInto_def orZero_def note1_def note2_def)

text \<open>
  C3, amended. The per-priority counts of \<open>getNoteStats\<close> have exactly the priorities
  of the notes as keys, each with the number of notes of that priority; a priority of
  no note is not a key.
\<close>

theorem getNoteStats_priorities:
  "map_of (priorities (getNoteStats LocalTZA clock N)) p =
     (if p \<in> priority ` set N then Some (length (filter (\<lambda>n. priority n = p) N)) else None)"
proof -
  have "(length (filter (\<lambda>n. priority n = p) N) = 0) = (p \<notin> priority ` set N)"
    by (auto simp: filter_empty_conv)
  then show ?thesis
    by (auto simp: getNoteStats_def priorities_count orZero_def Let_def)
qed










section \<open>Reading back what \<open>JSON.stringify\<close> writes\<close>

lemma char_by_code: "(of_char c :: nat) = k \<Longrightarrow> c = char_of k"
  by (metis char_of_char)

lemma quotes_differ [simp]: "dquote \<noteq> backslash" "backslash \<noteq> dquote"
  by (simp_all add: dquote_def backslash_def)

lemma hexVal_hexDigit: "d < 16 \<Longrightarrow> hexVal (hexDigit d) = Some d"
  by (auto simp: hexVal_def hexDigit_def Let_def)

lemma readHex4_escape:
  assumes "n < 32"
  shows "readHex4 (CHR ''0'' # CHR ''0'' # hexDigit (n div 16) # hexDigit (n mod 16) # rest) = Some n"
proof -
  have "n div 16 < 16" using assms by simp
  then show ?thesis
    by (simp add: readHex4_def hexVal_hexDigit) (simp add: hexVal_def)
qed

lemma consChar_Returns [simp]: "consChar c (Returns (s, rest)) = Returns (c # s, rest)"
  by (simp add: consChar_def andThen_def)

lemma scanString_escape:
  assumes "unescape e = Some ch" "e \<noteq> CHR ''u''"
  shows "scanString (backslash # e # rest) = consChar ch (scanString rest)"
  using assms by simp

lemma scanString_quoteChar: "scanString (quoteChar c @ rest) = consChar c (scanString rest)"
proof -
  define n where "n = (of_char c :: nat)"
  have c: "c = char_of n" by (simp add: n_def)
  consider (dq) "c = dquote" | (bs) "c = backslash"
    | (named) "c \<noteq> dquote" "c \<noteq> backslash" "n \<in> {8, 9, 10, 12, 13}"
    | (ctrl) "c \<noteq> dquote" "c \<noteq> backslash" "n \<notin> {8, 9, 10, 12, 13}" "n < 32"
    | (literal) "c \<noteq> dquote" "c \<noteq> backslash" "\<not> n < 32"
    by blast
  then show ?thesis
  proof cases
    case dq
    have "quoteChar c = [backslash, dquote]"
      by (simp add: quoteChar_def dq)
    moreover have "unescape dquote = Some dquote" "dquote \<noteq> CHR ''u''"
      by (simp_all add: unescape_def dquote_def)
    ultimately show ?thesis
      using scanString_escape [of dquote dquote rest] dq by simp
  next
    case bs
    have "quoteChar c = [backslash, backslash]"
      by (simp add: quoteChar_def bs)
    moreover have "unescape backslash = Some backslash" "backslash \<noteq> CHR ''u''"
      by (simp_all add: unescape_def backslash_def)
    ultimately show ?thesis
      using scanString_escape [of backslash backslash rest] bs by simp
  next
    case named
    from named(3) consider "n = 8" | "n = 9" | "n = 10" | "n = 12" | "n = 13" by auto
    then obtain e where e: "quoteChar c = [backslash, e]" "unescape e = Some c" "e \<noteq> CHR ''u''"
    proof cases
      case 1
      then have "c = CHR 0x08" using c by (simp add: char_of_def bit_Suc_0_iff)
      then show ?thesis
        by (intro that [of "CHR ''b''"])
           (simp_all add: quoteChar_def unescape_def dquote_def backslash_def)
    next
      case 2
      then have "c = CHR 0x09" using c by (simp add: char_of_def bit_Suc_0_iff)
      then show ?thesis
        by (intro that [of "CHR ''t''"])
           (simp_all add: quoteChar_def unescape_def dquote_def backslash_def)
    next
      case 3
      then have "c = CHR 0x0A" using c by (simp add: char_of_def bit_Suc_0_iff)
      then show ?thesis
        by (intro that [of "CHR ''n''"])
           (simp_all add: quoteChar_def unescape_def dquote_def backslash_def)
    next
      case 4
      then have "c = CHR 0x0C" using c by (simp add: char_of_def bit_Suc_0_iff)
      then show ?thesis
        by (intro that [of "CHR ''f''"])
           (simp_all add: quoteChar_def unescape_def dquote_def backslash_def)
    next
      case 5
      then have "c = CHR 0x0D" using c by (simp add: char_of_def bit_Suc_0_iff)
      then show ?thesis
        by (intro that [of "CHR ''r''"])
           (simp_all add: quoteChar_def unescape_def dquote_def backslash_def)
    qed
    then show ?thesis
      using scanString_escape [of e c rest] by simp
  next
    case ctrl
    have q: "quoteChar c = [backslash, CHR ''u'', CHR ''0'', CHR ''0'',
        hexDigit (n div 16), hexDigit (n mod 16)]"
      using ctrl by (simp add: quoteChar_def n_def [symmetric] Let_def)
    have "n < 256" using ctrl(4) by simp
    then show ?thesis
      unfolding q using readHex4_escape [OF ctrl(4), of rest] c
      by simp
  next
    case literal
    then have "quoteChar c = [c]"
      by (auto simp: quoteChar_def n_def [symmetric] Let_def)
    then show ?thesis
      using literal by (simp add: n_def)
  qed
qed

lemma scanString_quoted: "scanString (concat (map quoteChar s) @ dquote # r) = Returns (s, r)"
  by (induction s) (simp_all add: scanString_quoteChar)

lemma consToks_simps [simp]:
  "consTok t (consToks ts r) = consToks (t # ts) r"
  "consToks xs (consToks ys r) = consToks (xs @ ys) r"
  "consToks [] r = r"
  "consToks ts (Returns rest) = Returns (ts @ rest)"
  by (cases r; simp add: consToks_def consTok_def andThen_def)+

lemma consTok_as_consToks: "consTok t r = consToks [t] r"
  by (cases r) (simp_all add: consToks_def consTok_def andThen_def)

lemma tokenize_punctuation:
  "tokenize (CHR ''['' # r) = consToks [TLBracket] (tokenize r)"
  "tokenize (CHR '']'' # r) = consToks [TRBracket] (tokenize r)"
  "tokenize (CHR ''{'' # r) = consToks [TLBrace] (tokenize r)"
  "tokenize (CHR ''}'' # r) = consToks [TRBrace] (tokenize r)"
  "tokenize (CHR '':'' # r) = consToks [TColon] (tokenize r)"
  "tokenize (CHR '','' # r) = consToks [TComma] (tokenize r)"
  by (simp_all add: isJsonWhiteSpace_def punctuation_def consTok_as_consToks)

lemma tokenize_keyword:
  "tokenize (''null'' @ r) = consToks [TNull] (tokenize r)"
  "tokenize (''true'' @ r) = consToks [TTrue] (tokenize r)"
  "tokenize (''false'' @ r) = consToks [TFalse] (tokenize r)"
  by (simp_all add: isJsonWhiteSpace_def punctuation_def dquote_def isDigit_def digitVal_def
      keyword_def consTok_as_consToks)

lemma tokenize_quoted:
  "tokenize (quoteJSONString s @ r) = consToks [TString s] (tokenize r)"
proof -
  have "\<not> isJsonWhiteSpace dquote" "punctuation dquote = None"
    by (simp_all add: isJsonWhiteSpace_def punctuation_def dquote_def)
  then show ?thesis
    by (simp add: quoteJSONString_def scanString_quoted andThen_def consTok_as_consToks)
qed

declare tokenize.simps(2) [simp del]

lemma tokenize_join:
  assumes "\<And>x r. x \<in> set xs \<Longrightarrow> tokenize (txt x @ r) = consToks (toks x) (tokenize r)"
  shows "tokenize (join '','' (map txt xs) @ r) = consToks (separated (map toks xs)) (tokenize r)"
  using assms
proof (induction xs rule: induct_list012)
  case 1
  show ?case by simp
next
  case (2 x)
  then show ?case by simp
next
  case (3 x y zs)
  have "tokenize (join '','' (map txt (x # y # zs)) @ r)
      = tokenize (txt x @ CHR '','' # join '','' (map txt (y # zs)) @ r)"
    by simp
  also have "\<dots> = consToks (toks x) (tokenize (CHR '','' # join '','' (map txt (y # zs)) @ r))"
    by (rule "3.prems") simp
  also have "tokenize (CHR '','' # join '','' (map txt (y # zs)) @ r)
      = consToks [TComma] (tokenize (join '','' (map txt (y # zs)) @ r))"
    by (rule tokenize_punctuation)
  also have "tokenize (join '','' (map txt (y # zs)) @ r)
      = consToks (separated (map toks (y # zs))) (tokenize r)"
    by (rule "3.IH"(2)) (simp add: "3.prems")
  finally show ?case by simp
qed

lemma tokenize_stringify:
  "clean v \<Longrightarrow> tokenize (stringify v @ r) = consToks (tokensOf v) (tokenize r)"
proof (induction v arbitrary: r)
  case JNull
  show ?case using tokenize_keyword(1) [of r] by simp
next
  case (JBool b)
  show ?case using tokenize_keyword(2,3) [of r] by (cases b) simp_all
next
  case (JNum n)
  then show ?case by simp
next
  case (JStr s)
  show ?case by (simp add: tokenize_quoted)
next
  case (JArr xs)
  have elems: "tokenize (stringify x @ r') = consToks (tokensOf x) (tokenize r')"
    if "x \<in> set xs" for x r'
    using JArr.IH [OF that] JArr.prems that by (simp add: list_all_iff)
  have "tokenize (stringify (JArr xs) @ r)
      = consToks [TLBracket] (tokenize (join '','' (map stringify xs) @ CHR '']'' # r))"
    by (simp add: tokenize_punctuation)
  also have "tokenize (join '','' (map stringify xs) @ CHR '']'' # r)
      = consToks (separated (map tokensOf xs)) (tokenize (CHR '']'' # r))"
    by (rule tokenize_join) (rule elems)
  finally show ?case by (simp add: tokenize_punctuation)
next
  case (JObj kvs)
  have member: "tokenize ((case kv of (k, v) \<Rightarrow> quoteJSONString k @ '':'' @ stringify v) @ r')
      = consToks (case kv of (k, v) \<Rightarrow> TString k # TColon # tokensOf v) (tokenize r')"
    if "kv \<in> set kvs" for kv r'
  proof -
    obtain k v where kv: "kv = (k, v)" by (cases kv)
    have "clean v" using JObj.prems that kv by (auto simp: list_all_iff)
    moreover have "v \<in> Basic_BNFs.snds kv" by (simp add: kv)
    ultimately have "tokenize (stringify v @ r') = consToks (tokensOf v) (tokenize r')"
      using JObj.IH [OF that] by blast
    then show ?thesis
      by (simp add: kv tokenize_quoted tokenize_punctuation)
  qed
  have "tokenize (stringify (JObj kvs) @ r)
      = consToks [TLBrace] (tokenize (join '',''
          (map (\<lambda>(k, v). quoteJSONString k @ '':'' @ stringify v) kvs) @ CHR ''}'' # r))"
    by (simp add: tokenize_punctuation)
  also have "tokenize (join '','' (map (\<lambda>(k, v). quoteJSONString k @ '':'' @ stringify v) kvs)
        @ CHR ''}'' # r)
      = consToks (separated (map (\<lambda>(k, v). TString k # TColon # tokensOf v) kvs))
          (tokenize (CHR ''}'' # r))"
    by (rule tokenize_join) (rule member)
  finally show ?case by (simp add: tokenize_punctuation)
next
  case (JDate d)
  show ?case
    using tokenize_keyword(1) [of r] by (cases d) (simp_all add: tokenize_quoted)
qed

lemma tokensOf_start:
  "tokensOf v \<noteq> [] \<and> hd (tokensOf v) \<noteq> TRBracket \<and> hd (tokensOf v) \<noteq> TRBrace"
proof (cases v)
  case (JDate d)
  then show ?thesis by (cases d) simp_all
qed simp_all

lemma separated_start:
  assumes "xs \<noteq> []" "hd xs \<noteq> []"
  shows "separated xs @ r \<noteq> []" "hd (separated xs @ r) = hd (hd xs)"
  using assms by (induction xs rule: induct_list012) simp_all

lemma parseValue_scalar:
  "parseValue (TNull # r) = Returns (JNull, r)"
  "parseValue (TTrue # r) = Returns (JBool True, r)"
  "parseValue (TFalse # r) = Returns (JBool False, r)"
  "parseValue (TString s # r) = Returns (JStr s, r)"
  "parseValue (TLBracket # TRBracket # r) = Returns (JArr [], r)"
  "parseValue (TLBrace # TRBrace # r) = Returns (JObj [], r)"
  by (simp_all add: parseValue.simps)

lemma parseValue_array:
  "r \<noteq> [] \<Longrightarrow> hd r \<noteq> TRBracket \<Longrightarrow> parseValue (TLBracket # r) = parseElements r []"
  by (cases r; cases "hd r") (simp_all add: parseValue.simps)

lemma parseValue_object:
  "r \<noteq> [] \<Longrightarrow> hd r \<noteq> TRBrace \<Longrightarrow> parseValue (TLBrace # r) = parseMembers r []"
  by (cases r; cases "hd r") (simp_all add: parseValue.simps)

lemma parseElements_separated:
  assumes "xs \<noteq> []"
    and "\<And>x ts. x \<in> set xs \<Longrightarrow> parseValue (tokensOf x @ ts) = Returns (plain x, ts)"
  shows "parseElements (separated (map tokensOf xs) @ TRBracket # ts) acc
         = Returns (JArr (acc @ map plain xs), ts)"
  using assms
proof (induction xs arbitrary: acc rule: induct_list012)
  case 1
  then show ?case by simp
next
  case (2 x)
  have "parseValue (tokensOf x @ TRBracket # ts) = Returns (plain x, TRBracket # ts)"
    by (rule "2.prems") simp
  moreover have "tokensOf x \<noteq> []" by (simp add: tokensOf_start)
  ultimately show ?case
    by (simp add: parseElements.simps [of "tokensOf x @ TRBracket # ts"])
next
  case (3 x y zs)
  let ?rest = "separated (map tokensOf (y # zs)) @ TRBracket # ts"
  have "parseValue (tokensOf x @ TComma # ?rest) = Returns (plain x, TComma # ?rest)"
    by (rule "3.prems") simp
  moreover have "tokensOf x \<noteq> []" by (simp add: tokensOf_start)
  moreover have "parseElements ?rest (acc @ [plain x])
      = Returns (JArr ((acc @ [plain x]) @ map plain (y # zs)), ts)"
    by (rule "3.IH"(2)) (simp_all add: "3.prems")
  ultimately show ?case
    by (subst parseElements.simps) simp
qed

lemma update_fresh: "k \<notin> fst ` set acc \<Longrightarrow> AList.update k v acc = acc @ [(k, v)]"
  by (induction acc) auto

lemma parseMembers_separated:
  assumes "kvs \<noteq> []"
    and "\<And>k v ts. (k, v) \<in> set kvs \<Longrightarrow> parseValue (tokensOf v @ ts) = Returns (plain v, ts)"
    and "distinct (map fst acc @ map fst kvs)"
    and "\<And>k v. (k, v) \<in> set kvs \<Longrightarrow> \<not> isIndexKey k"
  shows "parseMembers (separated (map (\<lambda>(k, v). TString k # TColon # tokensOf v) kvs)
            @ TRBrace # ts) acc
         = Returns (JObj (acc @ map (\<lambda>(k, v). (k, plain v)) kvs), ts)"
  using assms
proof (induction kvs arbitrary: acc rule: induct_list012)
  case 1
  then show ?case by simp
next
  case (2 kv)
  obtain k v where kv: "kv = (k, v)" by (cases kv)
  have "parseValue (tokensOf v @ TRBrace # ts) = Returns (plain v, TRBrace # ts)"
    by (rule "2.prems"(2) [of k]) (simp add: kv)
  moreover have "tokensOf v \<noteq> []" by (simp add: tokensOf_start)
  moreover have "\<not> isIndexKey k" by (rule "2.prems"(4) [of k v]) (simp add: kv)
  moreover have "AList.update k (plain v) acc = acc @ [(k, plain v)]"
    using "2.prems"(3) by (intro update_fresh) (auto simp: kv)
  ultimately show ?case
    by (simp add: kv parseMembers.simps [of "TString k # TColon # tokensOf v @ TRBrace # ts"])
next
  case (3 kv kv' kvs)
  obtain k v where kv: "kv = (k, v)" by (cases kv)
  let ?rest = "separated (map (\<lambda>(k, v). TString k # TColon # tokensOf v) (kv' # kvs)) @ TRBrace # ts"
  have "parseValue (tokensOf v @ TComma # ?rest) = Returns (plain v, TComma # ?rest)"
    by (rule "3.prems"(2) [of k]) (simp add: kv)
  moreover have "tokensOf v \<noteq> []" by (simp add: tokensOf_start)
  moreover have "\<not> isIndexKey k" by (rule "3.prems"(4) [of k v]) (simp add: kv)
  moreover have fresh: "AList.update k (plain v) acc = acc @ [(k, plain v)]"
    using "3.prems"(3) by (intro update_fresh) (auto simp: kv)
  moreover have "parseMembers ?rest (acc @ [(k, plain v)])
      = Returns (JObj ((acc @ [(k, plain v)]) @ map (\<lambda>(k, v). (k, plain v)) (kv' # kvs)), ts)"
  proof (rule "3.IH"(2))
    show "kv' # kvs \<noteq> []" by simp
    show "parseValue (tokensOf v' @ ts') = Returns (plain v', ts')"
      if "(k', v') \<in> set (kv' # kvs)" for k' v' ts'
      using that by (intro "3.prems"(2) [of k']) simp
    show "distinct (map fst (acc @ [(k, plain v)]) @ map fst (kv' # kvs))"
      using "3.prems"(3) by (simp add: kv)
    show "\<not> isIndexKey k'" if "(k', v') \<in> set (kv' # kvs)" for k' v'
      using that by (intro "3.prems"(4) [of k' v']) simp
  qed
  ultimately show ?case
    unfolding kv by (subst parseMembers.simps) simp
qed

lemma parseValue_tokensOf:
  "clean v \<Longrightarrow> parseValue (tokensOf v @ ts) = Returns (plain v, ts)"
proof (induction v arbitrary: ts)
  case (JBool b)
  show ?case by (cases b) (simp_all add: parseValue_scalar)
next
  case (JNum n)
  then show ?case by simp
next
  case (JArr xs)
  show ?case
  proof (cases "xs = []")
    case True
    then show ?thesis by (simp add: parseValue_scalar)
  next
    case False
    have elems: "parseValue (tokensOf x @ ts') = Returns (plain x, ts')"
      if "x \<in> set xs" for x ts'
      using JArr.IH [OF that] JArr.prems that by (simp add: list_all_iff)
    have start: "map tokensOf xs \<noteq> []" "hd (map tokensOf xs) \<noteq> []"
       "hd (hd (map tokensOf xs)) \<noteq> TRBracket"
      using False tokensOf_start [of "hd xs"] by (simp_all add: hd_map)
    have "parseValue (tokensOf (JArr xs) @ ts)
        = parseElements (separated (map tokensOf xs) @ TRBracket # ts) []"
      using separated_start [OF start(1,2), of "TRBracket # ts"] start(3)
      by (simp add: parseValue_array)
    also have "\<dots> = Returns (JArr ([] @ map plain xs), ts)"
      by (rule parseElements_separated [OF False]) (rule elems)
    finally show ?thesis by simp
  qed
next
  case (JObj kvs)
  show ?case
  proof (cases "kvs = []")
    case True
    then show ?thesis by (simp add: parseValue_scalar)
  next
    case False
    let ?toks = "map (\<lambda>(k, v). TString k # TColon # tokensOf v) kvs"
    have members: "parseValue (tokensOf v @ ts') = Returns (plain v, ts')"
      if "(k, v) \<in> set kvs" for k v ts'
    proof -
      have "clean v" using JObj.prems that by (auto simp: list_all_iff)
      moreover have "v \<in> Basic_BNFs.snds (k, v)" by simp
      ultimately show ?thesis using JObj.IH [OF that] by blast
    qed
    have start: "?toks \<noteq> []" "hd ?toks \<noteq> []" "hd (hd ?toks) \<noteq> TRBrace"
      using False by (simp_all add: hd_map split: prod.splits)
    have "parseValue (tokensOf (JObj kvs) @ ts)
        = parseMembers (separated ?toks @ TRBrace # ts) []"
      using separated_start [OF start(1,2), of "TRBrace # ts"] start(3)
      by (simp add: parseValue_object)
    also have "\<dots> = Returns (JObj ([] @ map (\<lambda>(k, v). (k, plain v)) kvs), ts)"
    proof (rule parseMembers_separated [OF False])
      show "parseValue (tokensOf v @ ts') = Returns (plain v, ts')"
        if "(k, v) \<in> set kvs" for k v ts'
        using that by (rule members)
      show "distinct (map fst [] @ map fst kvs)"
        using JObj.prems by simp
      show "\<not> isIndexKey k" if "(k, v) \<in> set kvs" for k v
        using JObj.prems that by (auto simp: list_all_iff)
    qed
    finally show ?thesis by simp
  qed
next
  case (JDate d)
  show ?case by (cases d) (simp_all add: parseValue_scalar)
qed (simp_all add: parseValue_scalar)

theorem JSON_parse_stringify: "clean v \<Longrightarrow> JSON_parse (stringify v) = Returns (plain v)"
  using tokenize_stringify [of v "[]"] parseValue_tokensOf [of v "[]"]
  by (simp add: JSON_parse_def andThen_def)

section \<open>Properties of the storage\<close>

lemma not_isIndexKey_letter: "\<not> isDigit c \<Longrightarrow> \<not> isIndexKey (c # cs)"
  by (simp add: isIndexKey_def)

lemma clean_ofNote: "clean (ofNote n)"
  by (simp add: ofNote_def isIndexKey_def isDigit_def digitVal_def list_all_iff)

lemma plain_ofNote:
  "plain (ofNote n) = JObj
     [(''id'', JStr (id' n)),
      (''title'', JStr (title n)),
      (''content'', JStr (content n)),
      (''tags'', JArr (map JStr (tags n))),
      (''priority'', JStr (priorityId (priority n))),
      (''category'', JStr (categoryId (category n))),
      (''isFavorite'', JBool (isFavorite n)),
      (''createdAt'', JStr (toISOString (createdAt n))),
      (''updatedAt'', JStr (toISOString (updatedAt n)))]"
proof -
  have "map plain (map JStr ts) = map JStr ts" for ts
    by (induction ts) simp_all
  then show ?thesis by (simp add: ofNote_def)
qed

lemma revive_plain_ofNote:
  assumes "validDates n"
  shows "revive (plain (ofNote n)) = Returns (ofNote n)"
  using assms parseISO_toISOString [of "createdAt n"] parseISO_toISOString [of "updatedAt n"]
  by (simp add: plain_ofNote revive_def spread_def getProp_def newDate_def andThen_def
      validDates_def ofNote_def)

lemma mapOutcome_revive:
  assumes "\<forall>n \<in> set X. validDates n"
  shows "mapOutcome revive (map (\<lambda>n. plain (ofNote n)) X) = Returns (map ofNote X)"
  using assms by (induction X) (simp_all add: revive_plain_ofNote andThen_def)

lemma stringify_array_not_empty: "stringify (JArr xs) \<noteq> []"
  by simp

lemma getAllNotes_stored:
  assumes "getItem st NOTES_STORAGE_KEY = Some (stringify (JArr (map ofNote X)))"
    and "\<forall>n \<in> set X. validDates n"
  shows "getAllNotes st = Returns (map ofNote X)"
proof -
  have "clean (JArr (map ofNote X))"
    by (simp add: list_all_iff clean_ofNote)
  then have "JSON_parse (stringify (JArr (map ofNote X))) = Returns (plain (JArr (map ofNote X)))"
    by (rule JSON_parse_stringify)
  moreover have "plain (JArr (map ofNote X)) = JArr (map (\<lambda>n. plain (ofNote n)) X)"
    by simp
  ultimately show ?thesis
    using assms(1) mapOutcome_revive [OF assms(2)] stringify_array_not_empty [of "map ofNote X"]
    by (simp add: getAllNotes_def andThen_def catch_def arrayMap_def del: stringify.simps plain.simps)
qed

lemma setItem_getItem:
  "setItem key v st = Returns st' \<Longrightarrow> getItem st' key = Some v"
  by (auto simp: setItem_def getItem_def Let_def update_conv' split: if_splits)

lemma importNotes_Returns:
  "importNotes X st = Returns st' \<Longrightarrow>
   setItem NOTES_STORAGE_KEY (stringify (JArr (map ofNote X))) st = Returns st'"
  by (cases "setItem NOTES_STORAGE_KEY (stringify (JArr (map ofNote X))) st")
     (simp_all add: importNotes_def catch_def)

text \<open>
  C6. For every note collection whose dates are valid time values, when \<open>importNotes\<close>
  has stored it, \<open>getAllNotes\<close> returns the same notes in the same order, every field
  with its value and \<open>createdAt\<close> and \<open>updatedAt\<close> as dates of the same instants; and
  \<open>importNotes\<close> stores it whenever it fits the quota.
\<close>

theorem importNotes_getAllNotes:
  assumes "\<forall>n \<in> set X. validTime (createdAt n) \<and> validTime (updatedAt n)"
  shows "(importNotes X st = Returns st' \<longrightarrow> getAllNotes st' = Returns (map ofNote X)) \<and>
         (usage (AList.update NOTES_STORAGE_KEY (stringify (JArr (map ofNote X))) (items st))
            \<le> quota st \<longrightarrow> (\<exists>st'. importNotes X st = Returns st'))"
proof
  show "importNotes X st = Returns st' \<longrightarrow> getAllNotes st' = Returns (map ofNote X)"
  proof
    assume "importNotes X st = Returns st'"
    then have "getItem st' NOTES_STORAGE_KEY = Some (stringify (JArr (map ofNote X)))"
      by (intro setItem_getItem [of _ _ st] importNotes_Returns)
    then show "getAllNotes st' = Returns (map ofNote X)"
      using assms by (intro getAllNotes_stored) (simp_all add: validDates_def)
  qed
  show "usage (AList.update NOTES_STORAGE_KEY (stringify (JArr (map ofNote X))) (items st))
            \<le> quota st \<longrightarrow> (\<exists>st'. importNotes X st = Returns st')"
    by (simp add: importNotes_def setItem_def catch_def Let_def del: stringify.simps)
qed

text \<open>Two notes are stored in the empty storage and loaded.\<close>

theorem importNotes_getAllNotes_witness:
  "validTime (createdAt note1) \<and> validTime (updatedAt note1) \<and>
   validTime (createdAt note2) \<and> validTime (updatedAt note2) \<and>
   importNotes [note1, note2] store0 = Returns store1 \<and>
   getAllNotes store1 = Returns [ofNote note1, ofNote note2]"
proof -
  have v: "\<forall>n \<in> set [note1, note2]. validTime (createdAt n) \<and> validTime (updatedAt n)"
    by (simp add: note1_def note2_def validTime_def)
  have i: "importNotes [note1, note2] store0 = Returns store1"
    by code_simp
  from importNotes_getAllNotes [OF v, of store0 store1] i v show ?thesis
    by simp
qed






lemma findIndex_ge: "- 1 \<le> findIndex p xs"
  by (induction xs) (simp_all add: Let_def)










end
